theory Spec2Isabelle
  imports Main "HOL-Library.Sublist" "HOL-Library.AList"
begin

section \<open>Path strings: the functions of Node's \<open>path\<close> module that server.js calls\<close>

text \<open>
  server.js builds every path with \<open>path.join\<close> and compares paths with
  \<open>String.prototype.startsWith\<close>. Paths are strings (\<open>char list\<close>), POSIX flavour:
  the separator is the slash. \<open>path.join\<close> joins its non-empty arguments with a slash
  and normalises the result; normalisation drops empty and \<open>.\<close> segments and resolves
  \<open>..\<close> against the segment before it, lexically.
\<close>

fun split_on :: "char \<Rightarrow> string \<Rightarrow> string list" where
  "split_on c [] = [[]]"
| "split_on c (x # xs) =
     (if x = c then [] # split_on c xs
      else (case split_on c xs of [] \<Rightarrow> [[x]] | h # t \<Rightarrow> (x # h) # t))"

fun join_segs :: "string list \<Rightarrow> string" where
  "join_segs [] = []"
| "join_segs [s] = s"
| "join_segs (s # t # ts) = s @ CHR ''/'' # join_segs (t # ts)"

text \<open>
  \<open>normalizeString(path, allowAboveRoot)\<close>, segment by segment: \<open>res\<close> is the
  normalised path so far. A \<open>..\<close> removes the last segment of \<open>res\<close> unless there
  is none or it is itself \<open>..\<close>; then it is kept only when the path is relative.
\<close>

fun normalizeString :: "bool \<Rightarrow> string list \<Rightarrow> string list \<Rightarrow> string list" where
  "normalizeString allowAboveRoot res [] = res"
| "normalizeString allowAboveRoot res (s # ss) =
     (if s = [] \<or> s = ''.'' then normalizeString allowAboveRoot res ss
      else if s = ''..'' then
        (if res \<noteq> [] \<and> last res \<noteq> ''..''
           then normalizeString allowAboveRoot (butlast res) ss
         else if allowAboveRoot
           then normalizeString allowAboveRoot (res @ [''..'']) ss
         else normalizeString allowAboveRoot res ss)
      else normalizeString allowAboveRoot (res @ [s]) ss)"

definition path_normalize :: "string \<Rightarrow> string" where
  "path_normalize path =
     (if path = [] then ''.''
      else
        let isAbsolute = (hd path = CHR ''/'');
            trailingSeparator = (last path = CHR ''/'');
            p = join_segs (normalizeString (\<not> isAbsolute) [] (split_on CHR ''/'' path))
        in if p = [] then
             (if isAbsolute then ''/'' else if trailingSeparator then ''./'' else ''.'')
           else
             (let q = (if trailingSeparator then p @ ''/'' else p)
              in if isAbsolute then CHR ''/'' # q else q))"

definition path_join :: "string list \<Rightarrow> string" where
  "path_join args =
     (let joined = join_segs (filter (\<lambda>a. a \<noteq> []) args)
      in if joined = [] then ''.'' else path_normalize joined)"

text \<open>
  \<open>path.dirname\<close>: the path up to the last slash that is followed by a non-slash,
  scanning from the end and never looking at index 0.
\<close>

fun dirname_end :: "string \<Rightarrow> nat \<Rightarrow> bool \<Rightarrow> nat option" where
  "dirname_end path 0 matchedSlash = None"
| "dirname_end path (Suc i) matchedSlash =
     (if path ! Suc i = CHR ''/''
        then (if \<not> matchedSlash then Some (Suc i) else dirname_end path i matchedSlash)
      else dirname_end path i False)"

definition path_dirname :: "string \<Rightarrow> string" where
  "path_dirname path =
     (if path = [] then ''.''
      else
        let hasRoot = (hd path = CHR ''/'')
        in (case dirname_end path (length path - 1) True of
              None \<Rightarrow> (if hasRoot then ''/'' else ''.'')
            | Some e \<Rightarrow> (if hasRoot \<and> e = 1 then ''//'' else take e path)))"

text \<open>\<open>s.startsWith(t)\<close> is \<open>prefix t s\<close>; \<open>s.toLowerCase().endsWith(t)\<close>:\<close>

definition toLowerCase_char :: "char \<Rightarrow> char" where
  "toLowerCase_char c =
     (let n = (of_char c :: nat) in if 65 \<le> n \<and> n \<le> 90 then char_of (n + 32) else c)"

definition toLowerCase :: "string \<Rightarrow> string" where
  "toLowerCase s = map toLowerCase_char s"

definition endsWith :: "string \<Rightarrow> string \<Rightarrow> bool" where
  "endsWith s t = suffix t s"

text \<open>
  A name that is one path segment: not empty, not \<open>.\<close> or \<open>..\<close>, without a slash
  (the spec's "path-segment-safe string"). An absolute normalised path is written from
  its segments by \<open>abs_path\<close>.
\<close>

definition plain :: "string \<Rightarrow> bool" where
  "plain s = (s \<noteq> [] \<and> s \<noteq> ''.'' \<and> s \<noteq> ''..'' \<and> CHR ''/'' \<notin> set s)"

definition slashed :: "string list \<Rightarrow> string" where
  "slashed ds = concat (map ((#) CHR ''/'') ds)"

definition abs_path :: "string list \<Rightarrow> string" where
  "abs_path ds = (if ds = [] then ''/'' else slashed ds)"

definition plain_list :: "string list \<Rightarrow> bool" where
  "plain_list ds = list_all plain ds"

section \<open>The host file system\<close>

text \<open>
  The state that \<open>fs\<close> reads and writes: a finite table from canonical absolute paths
  (lists of segments, the root is \<open>[]\<close>) to nodes, and the working directory of the
  process, against which relative path strings are resolved. There are no symbolic
  links and no permissions. A regular file holds its content as text: the routes read
  and write with the encoding \<open>utf8\<close>, and bytes that are no text in that encoding
  are not modelled.
\<close>

datatype errno = ENOENT | ENOTDIR | EISDIR | EEXIST | ENOTEMPTY | EINVAL | EBUSY

datatype fnode = File string | Directory

record filesys =
  entries :: "(string list \<times> fnode) list"
  cwd :: "string list"

definition lookup :: "filesys \<Rightarrow> string list \<Rightarrow> fnode option" where
  "lookup fs p = (if p = [] then Some Directory else map_of (entries fs) p)"

text \<open>
  A file system is well formed when it is a tree of named entries: every entry has a
  name that is one path segment and lies in a directory.
\<close>

definition wf_fs :: "filesys \<Rightarrow> bool" where
  "wf_fs fs =
     list_all (\<lambda>(k, n). k \<noteq> [] \<and> plain_list k \<and> lookup fs (butlast k) = Some Directory)
       (entries fs)"

text \<open>
  Path resolution as the operating system does it: every component is looked up in
  the directory reached so far, which must exist and be a directory; \<open>..\<close> is the
  parent. The result is the canonical path of the target, which need not exist itself.
\<close>

fun walk :: "filesys \<Rightarrow> string list \<Rightarrow> string list \<Rightarrow> errno + string list" where
  "walk fs cur [] = Inr cur"
| "walk fs cur (s # ss) =
     (case lookup fs cur of
        None \<Rightarrow> Inl ENOENT
      | Some (File c) \<Rightarrow> Inl ENOTDIR
      | Some Directory \<Rightarrow>
          (if s = [] \<or> s = ''.'' then walk fs cur ss
           else if s = ''..'' then walk fs (butlast cur) ss
           else walk fs (cur @ [s]) ss))"

definition resolve :: "filesys \<Rightarrow> string \<Rightarrow> errno + string list" where
  "resolve fs path =
     (if path = [] then Inl ENOENT
      else walk fs (if hd path = CHR ''/'' then [] else cwd fs) (split_on CHR ''/'' path))"

definition node_at :: "filesys \<Rightarrow> string \<Rightarrow> fnode option" where
  "node_at fs path = (case resolve fs path of Inl e \<Rightarrow> None | Inr p \<Rightarrow> lookup fs p)"

definition existsSync :: "filesys \<Rightarrow> string \<Rightarrow> bool" where
  "existsSync fs path = (node_at fs path \<noteq> None)"

text \<open>\<open>stat(path)\<close>: only \<open>isDirectory()\<close> and \<open>size\<close> are modelled.\<close>

definition stat :: "filesys \<Rightarrow> string \<Rightarrow> errno + fnode" where
  "stat fs path =
     (case resolve fs path of
        Inl e \<Rightarrow> Inl e
      | Inr p \<Rightarrow> (case lookup fs p of None \<Rightarrow> Inl ENOENT | Some n \<Rightarrow> Inr n))"

definition isDirectory :: "fnode \<Rightarrow> bool" where
  "isDirectory n = (n = Directory)"

definition children :: "filesys \<Rightarrow> string list \<Rightarrow> string list" where
  "children fs p = map last (filter (\<lambda>k. k \<noteq> [] \<and> butlast k = p) (map fst (entries fs)))"

definition readdir :: "filesys \<Rightarrow> string \<Rightarrow> errno + string list" where
  "readdir fs path =
     (case resolve fs path of
        Inl e \<Rightarrow> Inl e
      | Inr p \<Rightarrow>
          (case lookup fs p of
             None \<Rightarrow> Inl ENOENT
           | Some (File c) \<Rightarrow> Inl ENOTDIR
           | Some Directory \<Rightarrow> Inr (children fs p)))"

definition readFile :: "filesys \<Rightarrow> string \<Rightarrow> errno + string" where
  "readFile fs path =
     (case resolve fs path of
        Inl e \<Rightarrow> Inl e
      | Inr p \<Rightarrow>
          (case lookup fs p of
             None \<Rightarrow> Inl ENOENT
           | Some Directory \<Rightarrow> Inl EISDIR
           | Some (File c) \<Rightarrow> Inr c))"

definition put :: "filesys \<Rightarrow> string list \<Rightarrow> fnode \<Rightarrow> filesys" where
  "put fs p n = fs\<lparr>entries := AList.update p n (entries fs)\<rparr>"

text \<open>
  \<open>writeFile(path, content)\<close>: creates the file or replaces its content. The parent
  directory must exist (it is not created), the target must not be a directory.
\<close>

definition writeFile :: "filesys \<Rightarrow> string \<Rightarrow> string \<Rightarrow> errno + filesys" where
  "writeFile fs path content =
     (case resolve fs path of
        Inl e \<Rightarrow> Inl e
      | Inr p \<Rightarrow>
          (if p = [] \<or> lookup fs p = Some Directory then Inl EISDIR
           else if lookup fs (butlast p) \<noteq> Some Directory then Inl ENOENT
           else Inr (put fs p (File content))))"

text \<open>
  \<open>mkdir(path, {recursive: true})\<close>: walks the path and creates every directory that
  is missing on the way; no error when the directory is there already. A regular file
  on the way (or at the end) is an error.
\<close>

definition ensure_dir :: "filesys \<Rightarrow> string list \<Rightarrow> bool \<Rightarrow> errno + filesys" where
  "ensure_dir fs p final =
     (case lookup fs p of
        None \<Rightarrow> Inr (put fs p Directory)
      | Some Directory \<Rightarrow> Inr fs
      | Some (File c) \<Rightarrow> Inl (if final then EEXIST else ENOTDIR))"

fun mkdir_walk :: "filesys \<Rightarrow> string list \<Rightarrow> string list \<Rightarrow> errno + filesys" where
  "mkdir_walk fs cur [] = ensure_dir fs cur True"
| "mkdir_walk fs cur (s # ss) =
     (case ensure_dir fs cur False of
        Inl e \<Rightarrow> Inl e
      | Inr fs' \<Rightarrow>
          (if s = [] \<or> s = ''.'' then mkdir_walk fs' cur ss
           else if s = ''..'' then mkdir_walk fs' (butlast cur) ss
           else mkdir_walk fs' (cur @ [s]) ss))"

definition mkdir_recursive :: "filesys \<Rightarrow> string \<Rightarrow> errno + filesys" where
  "mkdir_recursive fs path =
     (if path = [] then Inl ENOENT
      else mkdir_walk fs (if hd path = CHR ''/'' then [] else cwd fs) (split_on CHR ''/'' path))"

definition remove_tree :: "filesys \<Rightarrow> string list \<Rightarrow> filesys" where
  "remove_tree fs p = fs\<lparr>entries := filter (\<lambda>(k, n). \<not> prefix p k) (entries fs)\<rparr>"


text \<open>
  \<open>fs.promises.rm(path, {recursive: true, force: true})\<close> removes the entry and
  everything below it; a missing path is no error. The root itself cannot be removed:
  its content goes and the call fails. The file system after the call is returned
  together with the error, if any.
\<close>

definition rm_recursive_force :: "filesys \<Rightarrow> string \<Rightarrow> errno option \<times> filesys" where
  "rm_recursive_force fs path =
     (case resolve fs path of
        Inl e \<Rightarrow> (if e = ENOENT then (None, fs) else (Some e, fs))
      | Inr p \<Rightarrow>
          (if p = [] then (Some EBUSY, remove_tree fs p) else (None, remove_tree fs p)))"

text \<open>
  \<open>rename(oldPath, newPath)\<close> moves an entry with everything below it. An existing
  target is replaced when it is a file (and the source is one) or an empty directory
  (and the source is a directory).
\<close>

definition move_tree :: "filesys \<Rightarrow> string list \<Rightarrow> string list \<Rightarrow> filesys" where
  "move_tree fs p q =
     fs\<lparr>entries :=
          map (\<lambda>(k, n). if prefix p k then (q @ drop (length p) k, n) else (k, n))
            (filter (\<lambda>(k, n). \<not> prefix q k) (entries fs))\<rparr>"

definition rename :: "filesys \<Rightarrow> string \<Rightarrow> string \<Rightarrow> errno + filesys" where
  "rename fs oldPath newPath =
     (case resolve fs oldPath of
        Inl e \<Rightarrow> Inl e
      | Inr p \<Rightarrow>
          (case resolve fs newPath of
             Inl e \<Rightarrow> Inl e
           | Inr q \<Rightarrow>
               (case lookup fs p of
                  None \<Rightarrow> Inl ENOENT
                | Some src \<Rightarrow>
                    (if p = [] \<or> q = [] then Inl EBUSY
                     else if p = q then Inr fs
                     else if prefix p q then Inl EINVAL
                     else if lookup fs (butlast q) \<noteq> Some Directory then Inl ENOENT
                     else
                       (case lookup fs q of
                          None \<Rightarrow> Inr (move_tree fs p q)
                        | Some (File c) \<Rightarrow>
                            (if src = Directory then Inl ENOTDIR else Inr (move_tree fs p q))
                        | Some Directory \<Rightarrow>
                            (if src \<noteq> Directory then Inl EISDIR
                             else if children fs q \<noteq> [] then Inl ENOTEMPTY
                             else Inr (move_tree fs p q)))))))"

text \<open>\<open>copyFile(src, dest)\<close> copies a regular file, replacing the target.\<close>

definition copyFile :: "filesys \<Rightarrow> string \<Rightarrow> string \<Rightarrow> errno + filesys" where
  "copyFile fs src dest =
     (case readFile fs src of
        Inl e \<Rightarrow> Inl e
      | Inr content \<Rightarrow> writeFile fs dest content)"

text \<open>
  \<open>readdir(path, {withFileTypes: true})\<close>: the names with their kind.
\<close>

definition readdir_types :: "filesys \<Rightarrow> string \<Rightarrow> errno + (string \<times> bool) list" where
  "readdir_types fs path =
     (case resolve fs path of
        Inl e \<Rightarrow> Inl e
      | Inr p \<Rightarrow>
          (case lookup fs p of
             None \<Rightarrow> Inl ENOENT
           | Some (File c) \<Rightarrow> Inl ENOTDIR
           | Some Directory \<Rightarrow>
               Inr (map (\<lambda>name. (name, lookup fs (p @ [name]) = Some Directory))
                      (children fs p))))"

text \<open>
  A sequence of awaited calls inside one \<open>try\<close>: the first failure stops the
  sequence, and what the earlier calls wrote stays written.
\<close>

fun run_steps :: "filesys \<Rightarrow> (filesys \<Rightarrow> errno + filesys) list \<Rightarrow> errno option \<times> filesys" where
  "run_steps fs [] = (None, fs)"
| "run_steps fs (step # steps) =
     (case step fs of
        Inl e \<Rightarrow> (Some e, fs)
      | Inr fs' \<Rightarrow> run_steps fs' steps)"

section \<open>Requests, sessions and responses\<close>

text \<open>
  A field of the query string or of the JSON body that may be missing is a
  \<open>string option\<close>; \<open>!x\<close> holds for a missing and for an empty string, and
  \<open>x || ''\<close> is \<open>or_empty\<close>. Route parameters (\<open>:serverName\<close>, \<open>:filename\<close>)
  are always strings. Time stamps of directory entries are not modelled.
\<close>

definition falsy :: "string option \<Rightarrow> bool" where
  "falsy x = (x = None \<or> x = Some [])"

definition or_empty :: "string option \<Rightarrow> string" where
  "or_empty x = (case x of None \<Rightarrow> [] | Some s \<Rightarrow> s)"


record file_entry =
  fe_name :: string
  fe_type :: string
  fe_size :: "nat option"

record move_result =
  mr_filename :: string
  mr_status :: string
  mr_message :: string

datatype body =
    Message string
  | Error string
  | Content string
  | ServerList "(string \<times> string) list"
  | FileList string string "file_entry list"
  | Uploaded nat
  | MoveResults string "move_result list"
  | Logs "string list"
  | ProcessStatus bool string nat int
  | Stopped
  | Unhandled errno

text \<open>
  \<open>Resp status body\<close> is \<open>res.status(status).json(body)\<close>; \<open>Redirect\<close> is
  \<open>res.redirect\<close>; \<open>Uncaught\<close> is an exception thrown in a callback outside
  every \<open>try\<close>: no response is written; \<open>Pending\<close> is a handler that has not
  answered within the given number of recursive calls.
\<close>

datatype response = Resp nat body | Redirect string | Uncaught string | Pending


section \<open>The server registry\<close>

fun servers_loop :: "filesys \<Rightarrow> string \<Rightarrow> string list \<Rightarrow> errno + (string \<times> string) list" where
  "servers_loop fs serversDir [] = Inr []"
| "servers_loop fs serversDir (server # rest) =
     (let serverPath = path_join [serversDir, server]
      in case stat fs serverPath of
           Inl e \<Rightarrow> Inl e
         | Inr stats \<Rightarrow>
             (case servers_loop fs serversDir rest of
                Inl e \<Rightarrow> Inl e
              | Inr serverList \<Rightarrow>
                  Inr (if isDirectory stats then (server, serverPath) # serverList
                       else serverList)))"

text \<open>\<open>GET /api/servers\<close>\<close>

definition get_api_servers :: "filesys \<Rightarrow> string \<Rightarrow> response \<times> filesys" where
  "get_api_servers fs dirname =
     (let serversDir = path_join [dirname, ''servers'']
      in case (if \<not> existsSync fs serversDir then mkdir_recursive fs serversDir else Inr fs) of
           Inl e \<Rightarrow> (Resp 500 (Error ''Failed to read servers directory''), fs)
         | Inr fs1 \<Rightarrow>
             (case readdir fs1 serversDir of
                Inl e \<Rightarrow> (Resp 500 (Error ''Failed to read servers directory''), fs1)
              | Inr servers \<Rightarrow>
                  (case servers_loop fs1 serversDir servers of
                     Inl e \<Rightarrow> (Resp 500 (Error ''Failed to read servers directory''), fs1)
                   | Inr serverList \<Rightarrow> (Resp 200 (ServerList serverList), fs1))))"

definition unlines :: "string list \<Rightarrow> string" where
  "unlines ls = concat (map (\<lambda>l. CHR 0x0A # l) ls)"

definition template :: "string list \<Rightarrow> string" where
  "template ls = tl (unlines ls)"

definition serverProperties :: "string \<Rightarrow> string" where
  "serverProperties date =
     template
      [''# Minecraft server properties'',
       ''# Generated on '' @ date,
       ''gamemode=survival'',
       ''difficulty=normal'',
       ''level-type=DEFAULT'',
       ''max-players=20'',
       ''online-mode=true'']"

definition configYml :: "string \<Rightarrow> string" where
  "configYml name =
     template
      [''# Configuration file'',
       ''server-name: '' @ name,
       ''motd: Welcome to '' @ name @ '' server!'',
       ''world:'',
       ''  name: world'',
       ''  seed: 12345'',
       ''  generator: default'',
       ''plugins:'',
       ''  enabled:'',
       ''    - essentials'',
       ''    - worldedit'']"

definition bukkitYml :: string where
  "bukkitYml =
     template
      [''# Bukkit configuration file'',
       ''# Settings for the Bukkit server implementation'',
       [],
       ''settings:'',
       ''  allow-end: true'',
       ''  warn-on-overload: true'',
       ''  permissions-file: permissions.yml'',
       ''  update-folder: update'',
       ''  plugin-profiling: false'',
       ''  connection-throttle: 4000'',
       ''  query-plugins: true'',
       ''  deprecated-verbose: default'',
       ''  shutdown-message: Server closed'',
       ''  minimum-api: none'',
       [],
       ''spawn-limits:'',
       ''  monsters: 70'',
       ''  animals: 15'',
       ''  water-animals: 5'',
       ''  ambient: 15'',
       [],
       ''chunk-gc:'',
       ''  period-in-ticks: 600'',
       [],
       ''ticks-per:'',
       ''  animal-spawns: 400'',
       ''  monster-spawns: 1'',
       ''  autosave: 6000'',
       [],
       ''aliases:'',
       ''  icanhasbukkit: version $1-'']"

text \<open>
  \<open>POST /api/servers\<close>. \<open>name_field\<close> is the body's \<open>name\<close> (\<open>path.join\<close>
  throws on a missing one, inside the \<open>try\<close>); \<open>date\<close> is
  \<open>new Date().toString()\<close>.
\<close>

definition post_api_servers :: "filesys \<Rightarrow> string \<Rightarrow> string option \<Rightarrow> string \<Rightarrow> response \<times> filesys" where
  "post_api_servers fs dirname name_field date =
     (case name_field of
        None \<Rightarrow> (Resp 500 (Error ''Failed to create server''), fs)
      | Some name \<Rightarrow>
          (let serversDir = path_join [dirname, ''servers''];
               serverPath = path_join [serversDir, name]
           in case run_steps fs
                [\<lambda>fs. mkdir_recursive fs serverPath,
                 \<lambda>fs. mkdir_recursive fs (path_join [serverPath, ''plugins'']),
                 \<lambda>fs. mkdir_recursive fs (path_join [serverPath, ''logs'']),
                 \<lambda>fs. mkdir_recursive fs (path_join [serverPath, ''world'']),
                 \<lambda>fs. writeFile fs (path_join [serverPath, ''server.properties''])
                        (serverProperties date),
                 \<lambda>fs. writeFile fs (path_join [serverPath, ''config.yml'']) (configYml name),
                 \<lambda>fs. writeFile fs (path_join [serverPath, ''bukkit.yml'']) bukkitYml] of
                (None, fs') \<Rightarrow> (Resp 200 (Message ''Server created successfully''), fs')
              | (Some e, fs') \<Rightarrow> (Resp 500 (Error ''Failed to create server''), fs')))"

text \<open>\<open>DELETE /api/servers/:serverName\<close>\<close>

definition delete_api_servers :: "filesys \<Rightarrow> string \<Rightarrow> string \<Rightarrow> response \<times> filesys" where
  "delete_api_servers fs dirname serverName =
     (let serversDir = path_join [dirname, ''servers''];
          serverPath = path_join [serversDir, serverName]
      in if \<not> prefix serversDir serverPath then (Resp 400 (Error ''Invalid server name''), fs)
         else if \<not> existsSync fs serverPath then (Resp 404 (Error ''Server not found''), fs)
         else (case rm_recursive_force fs serverPath of
                 (None, fs') \<Rightarrow> (Resp 200 (Message ''Server deleted successfully''), fs')
               | (Some e, fs') \<Rightarrow> (Resp 500 (Error ''Failed to delete server''), fs')))"

section \<open>The global file routes\<close>











section \<open>Archives\<close>

text \<open>
  The ZIP codec is outside the repository: \<open>unzip\<close> is the decoder, from the bytes of
  a file to the archive's entries, \<open>None\<close> when the bytes are no archive (the
  constructor throws). \<open>extractAllTo(target, true)\<close> writes every entry below the
  target directory, creating directories as needed and replacing files.
\<close>

datatype zip_entry = ZipDirectory string | ZipFile string string

definition extract_entry :: "string \<Rightarrow> zip_entry \<Rightarrow> filesys \<Rightarrow> errno + filesys" where
  "extract_entry target entry fs =
     (case entry of
        ZipDirectory name \<Rightarrow> mkdir_recursive fs (path_join [target, name])
      | ZipFile name content \<Rightarrow>
          (case mkdir_recursive fs (path_dirname (path_join [target, name])) of
             Inl e \<Rightarrow> Inl e
           | Inr fs' \<Rightarrow> writeFile fs' (path_join [target, name]) content))"

definition extractAllTo :: "(string \<Rightarrow> zip_entry list option) \<Rightarrow> filesys \<Rightarrow> string \<Rightarrow> string \<Rightarrow> errno option \<times> filesys" where
  "extractAllTo unzip fs filePath target =
     (case readFile fs filePath of
        Inl e \<Rightarrow> (Some e, fs)
      | Inr bytes \<Rightarrow>
          (case unzip bytes of
             None \<Rightarrow> (Some EINVAL, fs)
           | Some zipEntries \<Rightarrow> run_steps fs (map (extract_entry target) zipEntries)))"

text \<open>\<open>POST /api/extract\<close>\<close>

definition post_api_extract :: "(string \<Rightarrow> zip_entry list option) \<Rightarrow> filesys \<Rightarrow> string option \<Rightarrow> string option \<Rightarrow> response \<times> filesys" where
  "post_api_extract unzip fs filePath targetPath =
     (case filePath of
        None \<Rightarrow> (Resp 400 (Error ''File path is required''), fs)
      | Some p \<Rightarrow>
          (if p = [] then (Resp 400 (Error ''File path is required''), fs)
           else if \<not> existsSync fs p then (Resp 404 (Error ''File not found''), fs)
           else if \<not> endsWith (toLowerCase p) ''.zip''
             then (Resp 400 (Error ''File is not a ZIP archive''), fs)
           else (case extractAllTo unzip fs p
                        (if falsy targetPath then path_dirname p else or_empty targetPath) of
                   (None, fs') \<Rightarrow> (Resp 200 (Message ''ZIP file extracted successfully''), fs')
                 | (Some e, fs') \<Rightarrow> (Resp 500 (Error ''Failed to extract ZIP file''), fs'))))"

text \<open>\<open>POST /api/servers/:serverName/extract/:filename\<close>\<close>

definition post_api_servers_extract :: "(string \<Rightarrow> zip_entry list option) \<Rightarrow> filesys \<Rightarrow> string \<Rightarrow> string \<Rightarrow> string \<Rightarrow> string option \<Rightarrow> response \<times> filesys" where
  "post_api_servers_extract unzip fs dirname serverName filename path_field =
     (let relativePath = or_empty path_field;
          serversDir = path_join [dirname, ''servers''];
          serverPath = path_join [serversDir, serverName];
          targetDir = path_join [serverPath, relativePath];
          filePath = path_join [targetDir, filename]
      in if \<not> prefix serverPath filePath then (Resp 400 (Error ''Invalid path''), fs)
         else if \<not> existsSync fs serverPath then (Resp 404 (Error ''Server not found''), fs)
         else if \<not> existsSync fs filePath then (Resp 404 (Error ''File not found''), fs)
         else if \<not> endsWith (toLowerCase filename) ''.zip''
           then (Resp 400 (Error ''File is not a ZIP archive''), fs)
         else (case extractAllTo unzip fs filePath targetDir of
                 (None, fs') \<Rightarrow> (Resp 200 (Message ''ZIP file extracted successfully''), fs')
               | (Some e, fs') \<Rightarrow> (Resp 500 (Error ''Failed to extract ZIP file''), fs')))"

section \<open>The file routes of one server\<close>

fun files_loop :: "filesys \<Rightarrow> string \<Rightarrow> string list \<Rightarrow> errno + file_entry list" where
  "files_loop fs targetDir [] = Inr []"
| "files_loop fs targetDir (file # rest) =
     (let filePath = path_join [targetDir, file]
      in case stat fs filePath of
           Inl e \<Rightarrow> Inl e
         | Inr stats \<Rightarrow>
             (case files_loop fs targetDir rest of
                Inl e \<Rightarrow> Inl e
              | Inr fileList \<Rightarrow>
                  Inr (\<lparr>fe_name = file,
                        fe_type = (if isDirectory stats then ''Pasta'' else ''Arquivo''),
                        fe_size = (case stats of Directory \<Rightarrow> None
                                   | File c \<Rightarrow> Some (length c))\<rparr> # fileList)))"

text \<open>\<open>GET /api/servers/:serverName/files\<close>\<close>

definition get_api_servers_files :: "filesys \<Rightarrow> string \<Rightarrow> string \<Rightarrow> string option \<Rightarrow> response \<times> filesys" where
  "get_api_servers_files fs dirname serverName path_query =
     (let relativePath = or_empty path_query;
          serversDir = path_join [dirname, ''servers''];
          serverPath = path_join [serversDir, serverName];
          targetDir = path_join [serverPath, relativePath]
      in if \<not> prefix serverPath targetDir then (Resp 400 (Error ''Invalid path''), fs)
         else if \<not> existsSync fs serverPath then (Resp 404 (Error ''Server not found''), fs)
         else (case (if \<not> existsSync fs targetDir then mkdir_recursive fs targetDir
                     else Inr fs) of
                 Inl e \<Rightarrow> (Resp 500 (Error ''Failed to read directory''), fs)
               | Inr fs1 \<Rightarrow>
                   (case readdir fs1 targetDir of
                      Inl e \<Rightarrow> (Resp 500 (Error ''Failed to read directory''), fs1)
                    | Inr files \<Rightarrow>
                        (case files_loop fs1 targetDir files of
                           Inl e \<Rightarrow> (Resp 500 (Error ''Failed to read directory''), fs1)
                         | Inr fileList \<Rightarrow>
                             (Resp 200 (FileList serverName relativePath fileList), fs1)))))"

text \<open>
  \<open>POST /api/servers/:serverName/move\<close>. \<open>filename\<close> and \<open>destinationPath\<close> are
  body fields passed to \<open>path.join\<close> as they are.
\<close>

definition post_api_servers_move :: "filesys \<Rightarrow> string \<Rightarrow> string \<Rightarrow> string option \<Rightarrow> string option \<Rightarrow> string option \<Rightarrow> response \<times> filesys" where
  "post_api_servers_move fs dirname serverName filename_field destination_field currentPath =
     (case (filename_field, destination_field) of
        (Some filename, Some destinationPath) \<Rightarrow>
          (let relativePath = or_empty currentPath;
               serversDir = path_join [dirname, ''servers''];
               serverPath = path_join [serversDir, serverName];
               sourceDir = path_join [serverPath, relativePath];
               destDir = path_join [serverPath, destinationPath];
               sourceFilePath = path_join [sourceDir, filename];
               destFilePath = path_join [destDir, filename]
           in if \<not> prefix serverPath sourceFilePath \<or> \<not> prefix serverPath destFilePath
                then (Resp 400 (Error ''Invalid path''), fs)
              else if \<not> existsSync fs serverPath
                then (Resp 404 (Error ''Server not found''), fs)
              else if \<not> existsSync fs sourceFilePath
                then (Resp 404 (Error ''Source file not found''), fs)
              else if \<not> existsSync fs destDir
                then (Resp 404 (Error ''Destination directory not found''), fs)
              else if existsSync fs destFilePath
                then (Resp 400 (Error ''File already exists in destination''), fs)
              else (case rename fs sourceFilePath destFilePath of
                      Inl e \<Rightarrow> (Resp 500 (Error ''Failed to move file''), fs)
                    | Inr fs' \<Rightarrow> (Resp 200 (Message ''File moved successfully''), fs')))
      | _ \<Rightarrow> (Resp 500 (Error ''Failed to move file''), fs))"

text \<open>\<open>POST /api/servers/:serverName/move-multiple\<close>: one result per file name.\<close>

definition move_one :: "filesys \<Rightarrow> string \<Rightarrow> string \<Rightarrow> string \<Rightarrow> move_result \<times> filesys" where
  "move_one fs sourceDir destDir filename =
     (let sourceFilePath = path_join [sourceDir, filename];
          destFilePath = path_join [destDir, filename]
      in if \<not> existsSync fs sourceFilePath
           then (\<lparr>mr_filename = filename, mr_status = ''error'',
                  mr_message = ''Source file not found''\<rparr>, fs)
         else if existsSync fs destFilePath
           then (\<lparr>mr_filename = filename, mr_status = ''error'',
                  mr_message = ''File already exists in destination''\<rparr>, fs)
         else (case rename fs sourceFilePath destFilePath of
                 Inl e \<Rightarrow> (\<lparr>mr_filename = filename, mr_status = ''error'',
                             mr_message = ''Failed to move file''\<rparr>, fs)
               | Inr fs' \<Rightarrow> (\<lparr>mr_filename = filename, mr_status = ''success'',
                              mr_message = ''File moved successfully''\<rparr>, fs')))"

fun move_loop :: "filesys \<Rightarrow> string \<Rightarrow> string \<Rightarrow> string list \<Rightarrow> move_result list \<times> filesys" where
  "move_loop fs sourceDir destDir [] = ([], fs)"
| "move_loop fs sourceDir destDir (filename # rest) =
     (case move_one fs sourceDir destDir filename of
        (r, fs') \<Rightarrow>
          (case move_loop fs' sourceDir destDir rest of
             (results, fs'') \<Rightarrow> (r # results, fs'')))"

definition post_api_servers_move_multiple :: "filesys \<Rightarrow> string \<Rightarrow> string \<Rightarrow> string list option \<Rightarrow> string option \<Rightarrow> string option \<Rightarrow> response \<times> filesys" where
  "post_api_servers_move_multiple fs dirname serverName filenames_field destination_field currentPath =
     (case destination_field of
        None \<Rightarrow> (Resp 500 (Error ''Failed to move files''), fs)
      | Some destinationPath \<Rightarrow>
          (let relativePath = or_empty currentPath;
               serversDir = path_join [dirname, ''servers''];
               serverPath = path_join [serversDir, serverName];
               sourceDir = path_join [serverPath, relativePath];
               destDir = path_join [serverPath, destinationPath]
           in if \<not> prefix serverPath sourceDir \<or> \<not> prefix serverPath destDir
                then (Resp 400 (Error ''Invalid path''), fs)
              else if \<not> existsSync fs serverPath
                then (Resp 404 (Error ''Server not found''), fs)
              else if \<not> existsSync fs destDir
                then (Resp 404 (Error ''Destination directory not found''), fs)
              else (case filenames_field of
                      None \<Rightarrow> (Resp 500 (Error ''Failed to move files''), fs)
                    | Some filenames \<Rightarrow>
                        (case move_loop fs sourceDir destDir filenames of
                           (results, fs') \<Rightarrow>
                             (Resp 200 (MoveResults ''Files move operation completed'' results),
                              fs')))))"

text \<open>
  \<open>copyDirectory(src, dest)\<close> reads the entries of \<open>src\<close>, creates \<open>dest\<close> and
  copies entry by entry, calling itself on directories. The first argument bounds the
  depth of these calls; \<open>None\<close> is a copy that did not finish within the bound.
\<close>

fun copyDirectory :: "nat \<Rightarrow> filesys \<Rightarrow> string \<Rightarrow> string \<Rightarrow> (errno option \<times> filesys) option"
  and copy_entries :: "nat \<Rightarrow> filesys \<Rightarrow> string \<Rightarrow> string \<Rightarrow> (string \<times> bool) list \<Rightarrow> (errno option \<times> filesys) option" where
  "copyDirectory 0 fs src dest = None"
| "copyDirectory (Suc n) fs src dest =
     (case readdir_types fs src of
        Inl e \<Rightarrow> Some (Some e, fs)
      | Inr dirents \<Rightarrow>
          (case mkdir_recursive fs dest of
             Inl e \<Rightarrow> Some (Some e, fs)
           | Inr fs' \<Rightarrow> copy_entries n fs' src dest dirents))"
| "copy_entries n fs src dest [] = Some (None, fs)"
| "copy_entries n fs src dest ((name, isDir) # rest) =
     (let srcPath = path_join [src, name];
          destPath = path_join [dest, name]
      in case (if isDir then copyDirectory n fs srcPath destPath
               else Some (case copyFile fs srcPath destPath of
                            Inl e \<Rightarrow> (Some e, fs)
                          | Inr fs' \<Rightarrow> (None, fs'))) of
           None \<Rightarrow> None
         | Some (Some e, fs') \<Rightarrow> Some (Some e, fs')
         | Some (None, fs') \<Rightarrow> copy_entries n fs' src dest rest)"

text \<open>\<open>POST /api/servers/:serverName/copy\<close>\<close>

definition post_api_servers_copy :: "nat \<Rightarrow> filesys \<Rightarrow> string \<Rightarrow> string \<Rightarrow> string option \<Rightarrow> string option \<Rightarrow> string option \<Rightarrow> response \<times> filesys" where
  "post_api_servers_copy depth fs dirname serverName filename_field destination_field currentPath =
     (case (filename_field, destination_field) of
        (Some filename, Some destinationPath) \<Rightarrow>
          (let relativePath = or_empty currentPath;
               serversDir = path_join [dirname, ''servers''];
               serverPath = path_join [serversDir, serverName];
               sourceDir = path_join [serverPath, relativePath];
               destDir = path_join [serverPath, destinationPath];
               sourceFilePath = path_join [sourceDir, filename];
               destFilePath = path_join [destDir, filename]
           in if \<not> prefix serverPath sourceFilePath \<or> \<not> prefix serverPath destFilePath
                then (Resp 400 (Error ''Invalid path''), fs)
              else if \<not> existsSync fs serverPath
                then (Resp 404 (Error ''Server not found''), fs)
              else if \<not> existsSync fs sourceFilePath
                then (Resp 404 (Error ''Source file not found''), fs)
              else if \<not> existsSync fs destDir
                then (Resp 404 (Error ''Destination directory not found''), fs)
              else if existsSync fs destFilePath
                then (Resp 400 (Error ''File already exists in destination''), fs)
              else (case stat fs sourceFilePath of
                      Inl e \<Rightarrow> (Resp 500 (Error ''Failed to copy item''), fs)
                    | Inr stats \<Rightarrow>
                        (case (if isDirectory stats
                                 then copyDirectory depth fs sourceFilePath destFilePath
                               else Some (case copyFile fs sourceFilePath destFilePath of
                                            Inl e \<Rightarrow> (Some e, fs)
                                          | Inr fs' \<Rightarrow> (None, fs'))) of
                           None \<Rightarrow> (Pending, fs)
                         | Some (Some e, fs') \<Rightarrow> (Resp 500 (Error ''Failed to copy item''), fs')
                         | Some (None, fs') \<Rightarrow>
                             (Resp 200 (Message ''Item copied successfully''), fs'))))
      | _ \<Rightarrow> (Resp 500 (Error ''Failed to copy item''), fs))"

text \<open>\<open>POST /api/servers/:serverName/rename\<close>\<close>

definition post_api_servers_rename :: "filesys \<Rightarrow> string \<Rightarrow> string \<Rightarrow> string option \<Rightarrow> string option \<Rightarrow> string option \<Rightarrow> response \<times> filesys" where
  "post_api_servers_rename fs dirname serverName oldName_field newName_field currentPath =
     (case (oldName_field, newName_field) of
        (Some oldName, Some newName) \<Rightarrow>
          (let relativePath = or_empty currentPath;
               serversDir = path_join [dirname, ''servers''];
               serverPath = path_join [serversDir, serverName];
               targetDir = path_join [serverPath, relativePath];
               oldFilePath = path_join [targetDir, oldName];
               newFilePath = path_join [targetDir, newName]
           in if \<not> prefix serverPath oldFilePath \<or> \<not> prefix serverPath newFilePath
                then (Resp 400 (Error ''Invalid path''), fs)
              else if \<not> existsSync fs serverPath
                then (Resp 404 (Error ''Server not found''), fs)
              else if \<not> existsSync fs oldFilePath
                then (Resp 404 (Error ''Source file not found''), fs)
              else if existsSync fs newFilePath
                then (Resp 400 (Error ''A file or directory with that name already exists''), fs)
              else (case rename fs oldFilePath newFilePath of
                      Inl e \<Rightarrow> (Resp 500 (Error ''Failed to rename item''), fs)
                    | Inr fs' \<Rightarrow> (Resp 200 (Message ''Item renamed successfully''), fs')))
      | _ \<Rightarrow> (Resp 500 (Error ''Failed to rename item''), fs))"

section \<open>The process manager\<close>

text \<open>
  PM2 is outside the repository. Its state is its process list; whether a call to it
  fails is given by the flags. \<open>pm2.start\<close> on success appends a process with the
  options as given, started at the current time; PM2 calls back when it has launched
  the process, and lists it as \<open>online\<close> at that moment. A failed call changes
  nothing. \<open>sent\<close> records the packets handed to processes.
\<close>

record proc =
  pname :: string
  pm_id :: nat
  pid :: nat
  pstatus :: string
  pm_uptime :: int
  pcwd :: string
  pscript :: string
  pargs :: "string list"
  pinterpreter :: string
  out_file :: string
  error_file :: string
  combine_logs :: bool
  log_date_format :: string

record pm2 =
  connect_fails :: bool
  list_fails :: bool
  start_fails :: bool
  send_fails :: bool
  procs :: "proc list"
  next_pm_id :: nat
  next_pid :: nat
  sent :: "(nat \<times> string) list"

definition pm2_start :: "pm2 \<Rightarrow> proc \<Rightarrow> int \<Rightarrow> unit + pm2" where
  "pm2_start pm opts now =
     (if start_fails pm then Inl ()
      else Inr (pm\<lparr>procs := procs pm @
                      [opts\<lparr>pm_id := next_pm_id pm, pid := next_pid pm,
                            pstatus := ''online'', pm_uptime := now\<rparr>],
                   next_pm_id := Suc (next_pm_id pm),
                   next_pid := Suc (next_pid pm)\<rparr>))"

text \<open>
  From then on PM2 supervises the process on its own, between the requests: when the
  process exits, is restarted or is stopped, PM2 records the new status of the process
  (\<open>stopped\<close>, \<open>errored\<close>, \<open>online\<close> again, ...) with its process id and start
  time. \<open>ProcessEvent name status pid since\<close> is one such change, to the processes
  called \<open>name\<close>; no event adds or removes a process. What \<open>pm2.list\<close> returns
  to a later request is the list after the events that have happened until then.
\<close>

datatype process_event =
  ProcessEvent (ev_name: string) (ev_status: string) (ev_pid: nat) (ev_since: int)

definition pm2_process_event :: "process_event \<Rightarrow> pm2 \<Rightarrow> pm2" where
  "pm2_process_event ev pm =
     pm\<lparr>procs := map (\<lambda>process. if pname process = ev_name ev
                                  then process\<lparr>pstatus := ev_status ev, pid := ev_pid ev,
                                               pm_uptime := ev_since ev\<rparr>
                                  else process) (procs pm)\<rparr>"

definition pm2_process_events :: "process_event list \<Rightarrow> pm2 \<Rightarrow> pm2" where
  "pm2_process_events evs pm = fold pm2_process_event evs pm"

text \<open>\<open>GET /api/servers/:serverName/status\<close>; \<open>now\<close> is \<open>Date.now()\<close>.\<close>

definition get_api_servers_status :: "pm2 \<Rightarrow> string \<Rightarrow> int \<Rightarrow> response \<times> pm2" where
  "get_api_servers_status pm serverName now =
     (if connect_fails pm then (Resp 500 (Error ''Failed to connect to PM2''), pm)
      else if list_fails pm then (Resp 500 (Error ''Failed to get process list''), pm)
      else (case find (\<lambda>process. pname process = serverName) (procs pm) of
              Some serverProcess \<Rightarrow>
                (Resp 200 (ProcessStatus (pstatus serverProcess = ''online'')
                             (pstatus serverProcess) (pid serverProcess)
                             (if pstatus serverProcess = ''online''
                                then (now - pm_uptime serverProcess) div 1000 else 0)), pm)
            | None \<Rightarrow> (Resp 200 Stopped, pm)))"

text \<open>\<open>POST /api/servers/:serverName/start\<close>\<close>

definition post_api_servers_start :: "filesys \<Rightarrow> pm2 \<Rightarrow> string \<Rightarrow> string \<Rightarrow> int \<Rightarrow> response \<times> pm2" where
  "post_api_servers_start fs pm dirname serverName now =
     (if connect_fails pm then (Resp 500 (Error ''Failed to connect to PM2''), pm)
      else if list_fails pm then (Resp 500 (Error ''Failed to get process list''), pm)
      else (case find (\<lambda>process. pname process = serverName) (procs pm) of
              Some serverProcess \<Rightarrow> (Resp 200 (Message ''Server is already running''), pm)
            | None \<Rightarrow>
                (let serversDir = path_join [dirname, ''servers''];
                     serverPath = path_join [serversDir, serverName]
                 in if \<not> existsSync fs serverPath
                      then (Resp 404 (Error ''Server not found''), pm)
                    else (case pm2_start pm
                                 \<lparr>pname = serverName, pm_id = 0, pid = 0, pstatus = [],
                                  pm_uptime = 0, pcwd = serverPath, pscript = ''java'',
                                  pargs = [''-Xmx1024M'', ''-Xms1024M'', ''-jar'',
                                           ''server.jar'', ''nogui''],
                                  pinterpreter = ''none'',
                                  out_file = path_join [serverPath, ''logs'', ''server.log''],
                                  error_file =
                                    path_join [serverPath, ''logs'', ''server-error.log''],
                                  combine_logs = True,
                                  log_date_format = ''YYYY-MM-DD HH:mm:ss''\<rparr> now of
                            Inl err \<Rightarrow> (Resp 500 (Error ''Failed to start server''), pm)
                          | Inr pm' \<Rightarrow>
                              (Resp 200 (Message ''Server started successfully''), pm')))))"

text \<open>
  \<open>POST /api/servers/:serverName/command\<close>. The callback given to
  \<open>pm2.sendDataToProcessId\<close> is \<open>(err, res) => ...\<close>: inside it \<open>res\<close> is the
  callback's second argument, the manager's reply (or nothing, on an error), not the
  response of the request. Calling \<open>res.status\<close> or \<open>res.json\<close> on it throws a
  TypeError, in a callback that no \<open>try\<close> encloses.
\<close>

datatype callback_arg = Undefined | Reply

definition call_method :: "callback_arg \<Rightarrow> string \<Rightarrow> response" where
  "call_method res method =
     (case res of
        Undefined \<Rightarrow>
          Uncaught (''TypeError: Cannot read properties of undefined (reading '' @ method @ '')'')
      | Reply \<Rightarrow> Uncaught (''TypeError: res.'' @ method @ '' is not a function''))"

definition post_api_servers_command :: "pm2 \<Rightarrow> string \<Rightarrow> string option \<Rightarrow> response \<times> pm2" where
  "post_api_servers_command pm serverName command_field =
     (case command_field of
        None \<Rightarrow> (Resp 400 (Error ''Command is required''), pm)
      | Some command \<Rightarrow>
          (if command = [] then (Resp 400 (Error ''Command is required''), pm)
           else if connect_fails pm then (Resp 500 (Error ''Failed to connect to PM2''), pm)
           else if list_fails pm then (Resp 500 (Error ''Failed to get process list''), pm)
           else (case find (\<lambda>process. pname process = serverName) (procs pm) of
                   None \<Rightarrow> (Resp 404 (Error ''Server not found or not running''), pm)
                 | Some serverProcess \<Rightarrow>
                     (if send_fails pm then (call_method Undefined ''status'', pm)
                      else (call_method Reply ''json'',
                            pm\<lparr>sent := sent pm @ [(pm_id serverProcess, command)]\<rparr>)))))"

section \<open>The console\<close>

text \<open>
  \<open>readline\<close> with \<open>crlfDelay: Infinity\<close> ends a line at LF, at CR LF and at a
  lone CR; what follows the last line end is a line when it is not empty.
\<close>

fun split_lines :: "string \<Rightarrow> string \<Rightarrow> string list" where
  "split_lines cur [] = (if cur = [] then [] else [cur])"
| "split_lines cur [c] =
     (if c = CHR 0x0A \<or> c = CHR 0x0D then [cur] else [cur @ [c]])"
| "split_lines cur (c # d # cs) =
     (if c = CHR 0x0A then cur # split_lines [] (d # cs)
      else if c = CHR 0x0D then
        (if d = CHR 0x0A then cur # split_lines [] cs else cur # split_lines [] (d # cs))
      else split_lines (cur @ [c]) (d # cs))"

text \<open>The \<open>line\<close> event of \<open>readLastLines\<close>: push, and shift when too long.\<close>

definition on_line :: "nat \<Rightarrow> string list \<Rightarrow> string \<Rightarrow> string list" where
  "on_line numLines lines line =
     (let pushed = lines @ [line]
      in if length pushed > numLines then tl pushed else pushed)"

definition readLastLines :: "filesys \<Rightarrow> string \<Rightarrow> nat \<Rightarrow> errno + string list" where
  "readLastLines fs file numLines =
     (case readFile fs file of
        Inl err \<Rightarrow> Inl err
      | Inr content \<Rightarrow> Inr (foldl (on_line numLines) [] (split_lines [] content)))"

text \<open>
  \<open>GET /api/servers/:serverName/console\<close>. \<open>mkdirSync\<close> and \<open>writeFileSync\<close> are
  called outside every \<open>try\<close>: what they throw goes to the framework, which answers
  500.
\<close>

definition get_api_servers_console :: "filesys \<Rightarrow> string \<Rightarrow> string \<Rightarrow> response \<times> filesys" where
  "get_api_servers_console fs dirname serverName =
     (let serversDir = path_join [dirname, ''servers''];
          serverPath = path_join [serversDir, serverName];
          logFile = path_join [serverPath, ''logs'', ''server.log'']
      in if \<not> existsSync fs serverPath then (Resp 404 (Error ''Server not found''), fs)
         else
           let logsDir = path_join [serverPath, ''logs'']
           in case (if \<not> existsSync fs logsDir then mkdir_recursive fs logsDir else Inr fs) of
                Inl e \<Rightarrow> (Resp 500 (Unhandled e), fs)
              | Inr fs1 \<Rightarrow>
                  (case (if \<not> existsSync fs1 logFile then writeFile fs1 logFile []
                         else Inr fs1) of
                     Inl e \<Rightarrow> (Resp 500 (Unhandled e), fs1)
                   | Inr fs2 \<Rightarrow>
                       (case readLastLines fs2 logFile 100 of
                          Inr lines \<Rightarrow> (Resp 200 (Logs lines), fs2)
                        | Inl err \<Rightarrow> (Resp 200 (Logs []), fs2))))"

section \<open>Names used in the statements\<close>

text \<open>
  The root directory of a server, \<open>serverPath\<close> in every route:
  \<open>path.join(path.join(__dirname, 'servers'), serverName)\<close>.
\<close>

definition server_root :: "string \<Rightarrow> string \<Rightarrow> string" where
  "server_root dirname serverName = path_join [path_join [dirname, ''servers''], serverName]"

text \<open>
  \<open>path.isAbsolute\<close>, and the path of an entry \<open>name\<close> in the directory
  \<open>relativePath\<close> of a server, as the move, copy and rename routes compute it:
  \<open>path.join(path.join(serverPath, relativePath), name)\<close>.
\<close>

definition is_absolute :: "string \<Rightarrow> bool" where
  "is_absolute p = (p \<noteq> [] \<and> hd p = CHR ''/'')"

definition entry_path :: "string \<Rightarrow> string \<Rightarrow> string \<Rightarrow> string \<Rightarrow> string" where
  "entry_path dirname serverName relativePath name =
     path_join [path_join [server_root dirname serverName, relativePath], name]"

text \<open>
  In the bulk move, a file is blocked when its source is missing or its destination
  is taken; \<open>blocked_result\<close> is the entry that the loop records for it.
\<close>

definition blocked :: "filesys \<Rightarrow> string \<Rightarrow> string \<Rightarrow> string \<Rightarrow> bool" where
  "blocked fs sourceDir destDir filename =
     (\<not> existsSync fs (path_join [sourceDir, filename])
      \<or> existsSync fs (path_join [destDir, filename]))"

definition blocked_result :: "filesys \<Rightarrow> string \<Rightarrow> string \<Rightarrow> string \<Rightarrow> move_result" where
  "blocked_result fs sourceDir destDir filename =
     \<lparr>mr_filename = filename, mr_status = ''error'',
      mr_message = (if \<not> existsSync fs (path_join [sourceDir, filename])
                    then ''Source file not found''
                    else ''File already exists in destination'')\<rparr>"

text \<open>
  A small host for the concrete runs. The application lives in \<open>/app\<close>; there are
  the servers \<open>s1\<close>, \<open>s1-evil\<close> and \<open>s2\<close>. \<open>s1\<close> holds a file \<open>a.txt\<close>,
  a directory \<open>backup\<close> with an older \<open>a.txt\<close>, and an edited
  \<open>server.properties\<close>, and no \<open>server.jar\<close>; \<open>s2\<close> has a log of two lines.
  Outside the application there is \<open>/etc/passwd\<close>. \<open>staged_fs\<close> is the same
  host after the upload middleware has stored the two files \<open>staged_files\<close>. The
  process manager runs the given processes; \<open>demo_proc\<close> is server \<open>s1\<close> online,
  \<open>crashed_proc\<close> the same process after a crash.
\<close>

definition demo_fs :: filesys where
  "demo_fs =
     \<lparr>entries =
        [([''app''], Directory),
         ([''app'', ''servers''], Directory),
         ([''app'', ''servers'', ''s1''], Directory),
         ([''app'', ''servers'', ''s1'', ''server.properties''], File ''gamemode=creative''),
         ([''app'', ''servers'', ''s1'', ''a.txt''], File ''hello''),
         ([''app'', ''servers'', ''s1'', ''backup''], Directory),
         ([''app'', ''servers'', ''s1'', ''backup'', ''a.txt''], File ''old''),
         ([''app'', ''servers'', ''s1-evil''], Directory),
         ([''app'', ''servers'', ''s1-evil'', ''secret.txt''], File ''top''),
         ([''app'', ''servers'', ''s2''], Directory),
         ([''app'', ''servers'', ''s2'', ''logs''], Directory),
         ([''app'', ''servers'', ''s2'', ''logs'', ''server.log''],
          File (''starting'' @ [CHR 0x0A] @ ''done'' @ [CHR 0x0A])),
         ([''etc''], Directory),
         ([''etc'', ''passwd''], File ''root:x:0:0'')],
      cwd = [''app'']\<rparr>"





definition demo_proc :: proc where
  "demo_proc =
     \<lparr>pname = ''s1'', pm_id = 0, pid = 4242, pstatus = ''online'', pm_uptime = 0,
      pcwd = ''/app/servers/s1'', pscript = ''java'', pargs = [], pinterpreter = ''none'',
      out_file = [], error_file = [], combine_logs = True, log_date_format = []\<rparr>"

definition crashed_proc :: proc where
  "crashed_proc = demo_proc\<lparr>pid := 0, pstatus := ''errored''\<rparr>"

definition demo_pm2 :: "proc list \<Rightarrow> pm2" where
  "demo_pm2 ps =
     \<lparr>connect_fails = False, list_fails = False, start_fails = False, send_fails = False,
      procs = ps, next_pm_id = length ps, next_pid = 5000, sent = []\<rparr>"


section \<open>Lemmas about paths\<close>

lemma split_on_none: "c \<notin> set s \<Longrightarrow> split_on c s = [s]"
  by (induction s) auto

lemma split_on_append: "c \<notin> set s \<Longrightarrow> split_on c (s @ c # t) = s # split_on c t"
  by (induction s) auto

lemma split_on_slashed:
  "CHR ''/'' \<notin> set s \<Longrightarrow> plain_list ds \<Longrightarrow> split_on CHR ''/'' (s @ slashed ds) = s # ds"
proof (induction ds arbitrary: s)
  case Nil
  then show ?case by (simp add: slashed_def split_on_none)
next
  case (Cons d ds)
  have d: "CHR ''/'' \<notin> set d" and ds: "plain_list ds"
    using Cons.prems(2) by (auto simp: plain_list_def plain_def)
  have "s @ slashed (d # ds) = s @ CHR ''/'' # (d @ slashed ds)"
    by (simp add: slashed_def)
  then show ?case
    using Cons.IH[OF d ds] Cons.prems(1) by (simp add: split_on_append)
qed

lemma normalizeString_plain:
  "plain_list ss \<Longrightarrow> normalizeString a res ss = res @ ss"
  by (induction ss arbitrary: res) (auto simp: plain_list_def plain_def)

lemma join_segs_slashed: "ds \<noteq> [] \<Longrightarrow> CHR ''/'' # join_segs ds = slashed ds"
  by (induction ds rule: join_segs.induct) (auto simp: slashed_def)

lemma slashed_append: "slashed (xs @ ys) = slashed xs @ slashed ys"
  by (simp add: slashed_def)

lemma slashed_Nil_iff: "slashed ds = [] \<longleftrightarrow> ds = []"
  by (cases ds) (auto simp: slashed_def)

lemma join_segs_Nil_iff: "plain_list ds \<Longrightarrow> join_segs ds = [] \<longleftrightarrow> ds = []"
  by (induction ds rule: join_segs.induct) (auto simp: plain_list_def plain_def)

lemma last_slashed: "plain_list ds \<Longrightarrow> ds \<noteq> [] \<Longrightarrow> last (slashed ds) \<noteq> CHR ''/''"
proof (induction ds)
  case Nil then show ?case by simp
next
  case (Cons d ds)
  then have pd: "d \<noteq> []" "CHR ''/'' \<notin> set d" by (auto simp: plain_list_def plain_def)
  show ?case
  proof (cases "ds = []")
    case True
    then show ?thesis using pd by (auto simp: slashed_def intro: last_in_set) (metis last_in_set)
  next
    case False
    then have "slashed ds \<noteq> []" by (simp add: slashed_Nil_iff)
    then show ?thesis using Cons False by (simp add: slashed_def plain_list_def)
  qed
qed

lemma normalize_slashed:
  assumes "plain_list ds" "ds \<noteq> []"
  shows "path_normalize (slashed ds) = slashed ds"
    and "path_normalize (CHR ''/'' # slashed ds) = slashed ds"
proof -
  obtain d ds' where ds: "ds = d # ds'" using assms(2) by (cases ds) auto
  have hd: "hd (slashed ds) = CHR ''/''" by (simp add: ds slashed_def)
  have ne: "slashed ds \<noteq> []" using assms(2) by (simp add: slashed_Nil_iff)
  have sp: "split_on CHR ''/'' (slashed ds) = [] # ds"
    using split_on_slashed[of "[]" ds] assms(1) by simp
  have sp2: "split_on CHR ''/'' (CHR ''/'' # slashed ds) = [] # [] # ds"
    using sp by simp
  have j: "join_segs ds \<noteq> []" using assms by (simp add: join_segs_Nil_iff)
  have l: "last (slashed ds) \<noteq> CHR ''/''" using assms by (rule last_slashed)
  show "path_normalize (slashed ds) = slashed ds"
    using hd ne sp j l assms
    by (simp add: path_normalize_def Let_def normalizeString_plain join_segs_slashed)
  show "path_normalize (CHR ''/'' # slashed ds) = slashed ds"
    using ne sp2 j l assms
    by (simp add: path_normalize_def Let_def normalizeString_plain join_segs_slashed)
qed

lemma abs_path_nonempty: "abs_path ds \<noteq> []"
  by (cases ds) (auto simp: abs_path_def slashed_def)

lemma join_segs_cons: "join_segs (a # ns) = a @ slashed ns"
  by (induction ns arbitrary: a) (auto simp: slashed_def)

lemma path_join_abs:
  assumes "plain_list ds" "plain_list ns" "ns \<noteq> []"
  shows "path_join (abs_path ds # ns) = abs_path (ds @ ns)"
proof -
  have nn: "filter (\<lambda>a. a \<noteq> []) ns = ns"
    using assms(2) by (induction ns) (auto simp: plain_list_def plain_def)
  have pl: "plain_list (ds @ ns)" using assms by (simp add: plain_list_def)
  have ne: "ds @ ns \<noteq> []" using assms(3) by simp
  show ?thesis
  proof (cases "ds = []")
    case True
    then show ?thesis
      using nn assms normalize_slashed(2)[of ns]
      by (simp add: path_join_def abs_path_def join_segs_cons Let_def)
  next
    case False
    then show ?thesis
      using nn normalize_slashed(1)[OF pl ne] assms(3)
      by (simp add: path_join_def abs_path_def join_segs_cons Let_def slashed_append slashed_Nil_iff)
  qed
qed

lemma prefix_abs_path: "ds \<noteq> [] \<Longrightarrow> prefix (abs_path ds) (abs_path (ds @ ns))"
  by (simp add: abs_path_def slashed_append)

section \<open>Lemmas about the file system\<close>

lemma lookup_root [simp]: "lookup fs [] = Some Directory"
  by (simp add: lookup_def)

lemma lookup_put: "lookup (put fs p n) q = (if q = [] then Some Directory else if q = p then Some n else lookup fs q)"
  by (simp add: lookup_def put_def update_conv')

lemma cwd_put [simp]: "cwd (put fs p n) = cwd fs"
  by (simp add: put_def)

lemma map_of_filter_key:
  "map_of (filter (\<lambda>(k, n). P k) al) q = (if P q then map_of al q else None)"
  by (induction al) auto

lemma lookup_remove_tree:
  "lookup (remove_tree fs p) q = (if q = [] then Some Directory else if prefix p q then None else lookup fs q)"
  by (simp add: lookup_def remove_tree_def map_of_filter_key)

lemma cwd_remove_tree [simp]: "cwd (remove_tree fs p) = cwd fs"
  by (simp add: remove_tree_def)

lemma wf_fs_entry:
  "wf_fs fs \<Longrightarrow> (k, n) \<in> set (entries fs) \<Longrightarrow> k \<noteq> [] \<and> plain_list k \<and> lookup fs (butlast k) = Some Directory"
  by (auto simp: wf_fs_def list_all_iff)

lemma lookup_in_entries: "p \<noteq> [] \<Longrightarrow> lookup fs p = Some n \<Longrightarrow> (p, n) \<in> set (entries fs)"
  by (simp add: lookup_def map_of_SomeD)

lemma wf_parent: "wf_fs fs \<Longrightarrow> lookup fs p = Some n \<Longrightarrow> lookup fs (butlast p) = Some Directory"
  by (cases "p = []") (auto dest: lookup_in_entries wf_fs_entry)

lemma wf_plain: "wf_fs fs \<Longrightarrow> lookup fs p = Some n \<Longrightarrow> plain_list p"
  by (cases "p = []") (auto dest: lookup_in_entries wf_fs_entry simp: plain_list_def)

lemma wf_take: "wf_fs fs \<Longrightarrow> lookup fs p = Some n \<Longrightarrow> k < length p \<Longrightarrow> lookup fs (take k p) = Some Directory"
proof (induction p arbitrary: n rule: rev_induct)
  case Nil then show ?case by simp
next
  case (snoc x xs)
  have par: "lookup fs xs = Some Directory" using wf_parent[OF snoc.prems(1,2)] by simp
  show ?case
  proof (cases "k < length xs")
    case True
    then show ?thesis using snoc.IH[OF snoc.prems(1) par] by simp
  next
    case False
    then have "k = length xs" using snoc.prems(3) by simp
    then show ?thesis using par by simp
  qed
qed

lemma walk_append:
  "walk fs cur (ss @ ts) = (case walk fs cur ss of Inl e \<Rightarrow> Inl e | Inr r \<Rightarrow> walk fs r ts)"
  by (induction ss arbitrary: cur) (auto split: option.splits fnode.splits)

lemma walk_plain_result: "plain_list ss \<Longrightarrow> walk fs cur ss = Inr r \<Longrightarrow> r = cur @ ss"
proof (induction ss arbitrary: cur)
  case Nil then show ?case by simp
next
  case (Cons s ss)
  have ps: "plain s" "plain_list ss" using Cons.prems(1) by (simp_all add: plain_list_def)
  have "walk fs (cur @ [s]) ss = Inr r"
    using Cons.prems(2) ps(1) by (auto simp: plain_def split: option.splits fnode.splits)
  then have "r = (cur @ [s]) @ ss" using Cons.IH[OF ps(2)] by blast
  then show ?case by simp
qed

lemma walk_plain:
  "plain_list ss \<Longrightarrow> (\<forall>k<length ss. lookup fs (cur @ take k ss) = Some Directory) \<Longrightarrow> walk fs cur ss = Inr (cur @ ss)"
proof (induction ss arbitrary: cur)
  case Nil then show ?case by simp
next
  case (Cons s ss)
  have c: "lookup fs cur = Some Directory" using Cons.prems(2)[rule_format, of 0] by simp
  have "\<forall>k<length ss. lookup fs ((cur @ [s]) @ take k ss) = Some Directory"
  proof (intro allI impI)
    fix k assume "k < length ss"
    then show "lookup fs ((cur @ [s]) @ take k ss) = Some Directory"
      using Cons.prems(2)[rule_format, of "Suc k"] by simp
  qed
  then have "walk fs (cur @ [s]) ss = Inr ((cur @ [s]) @ ss)"
    using Cons.IH[of "cur @ [s]"] Cons.prems(1) by (simp add: plain_list_def)
  then show ?case using c Cons.prems(1) by (simp add: plain_list_def plain_def)
qed

lemma split_abs_path: "plain_list p \<Longrightarrow> p \<noteq> [] \<Longrightarrow> split_on CHR ''/'' (abs_path p) = [] # p"
  using split_on_slashed[of "[]" p] by (simp add: abs_path_def)

lemma hd_abs_path [simp]: "hd (abs_path p) = CHR ''/''"
  by (cases p) (auto simp: abs_path_def slashed_def)

lemma resolve_abs_walk: "plain_list p \<Longrightarrow> resolve fs (abs_path p) = walk fs [] p"
proof (cases "p = []")
  case True
  then show ?thesis by (simp add: resolve_def abs_path_def)
next
  case False
  assume "plain_list p"
  then show ?thesis using False by (simp add: resolve_def abs_path_nonempty split_abs_path)
qed

lemma resolve_abs:
  assumes "wf_fs fs" "plain_list p" "p = [] \<or> lookup fs (butlast p) = Some Directory"
  shows "resolve fs (abs_path p) = Inr p"
proof (cases "p = []")
  case True
  then show ?thesis using assms(2) by (simp add: resolve_abs_walk)
next
  case False
  then have par: "lookup fs (butlast p) = Some Directory" using assms(3) by simp
  have "\<forall>k<length p. lookup fs ([] @ take k p) = Some Directory"
  proof (intro allI impI)
    fix k assume k: "k < length p"
    show "lookup fs ([] @ take k p) = Some Directory"
    proof (cases "k < length (butlast p)")
      case True
      then show ?thesis using wf_take[OF assms(1) par, of k] by (simp add: take_butlast)
    next
      case False
      then have "k = length p - 1" using k by simp
      then show ?thesis using par by (simp add: butlast_conv_take)
    qed
  qed
  then show ?thesis using walk_plain[OF assms(2), of fs "[]"] assms(2) by (simp add: resolve_abs_walk)
qed

lemma resolve_abs_fail:
  assumes "plain_list p" "p \<noteq> []" "lookup fs (butlast p) \<noteq> Some Directory"
  shows "\<exists>e. resolve fs (abs_path p) = Inl e"
proof -
  have pb: "plain_list (butlast p)" using assms(1) by (auto simp: plain_list_def list_all_iff dest: in_set_butlastD)
  have pl: "plain (last p)" using assms(1,2) by (auto simp: plain_list_def list_all_iff)
  have "walk fs [] p = walk fs [] (butlast p @ [last p])" using assms(2) by simp
  also have "\<dots> = (case walk fs [] (butlast p) of Inl e \<Rightarrow> Inl e | Inr r \<Rightarrow> walk fs r [last p])"
    by (rule walk_append)
  finally have w: "walk fs [] p = (case walk fs [] (butlast p) of Inl e \<Rightarrow> Inl e | Inr r \<Rightarrow> walk fs r [last p])" .
  show ?thesis
  proof (cases "walk fs [] (butlast p)")
    case (Inl e)
    then show ?thesis using w assms(1) by (simp add: resolve_abs_walk)
  next
    case (Inr r)
    then have "r = butlast p" using walk_plain_result[OF pb] by force
    then show ?thesis using w Inr assms(1,3) by (auto simp add: resolve_abs_walk split: option.splits fnode.splits)
  qed
qed

lemma node_at_abs:
  assumes "wf_fs fs" "plain_list p"
  shows "node_at fs (abs_path p) = lookup fs p"
proof (cases "p = [] \<or> lookup fs (butlast p) = Some Directory")
  case True
  then show ?thesis using resolve_abs[OF assms] by (simp add: node_at_def)
next
  case False
  then have ne: "p \<noteq> []" and np: "lookup fs (butlast p) \<noteq> Some Directory" by auto
  have "lookup fs p = None"
  proof (rule ccontr)
    assume "lookup fs p \<noteq> None"
    then obtain n where "lookup fs p = Some n" by auto
    then show False using wf_parent[OF assms(1)] np by simp
  qed
  moreover obtain e where "resolve fs (abs_path p) = Inl e"
    using resolve_abs_fail[OF assms(2) ne np] by auto
  ultimately show ?thesis by (simp add: node_at_def)
qed

lemma existsSync_abs: "wf_fs fs \<Longrightarrow> plain_list p \<Longrightarrow> existsSync fs (abs_path p) = (lookup fs p \<noteq> None)"
  by (simp add: existsSync_def node_at_abs)

section \<open>Creating directories and writing files at absolute paths\<close>

lemma in_update_cases:
  "(a, b) \<in> set (AList.update k v al) \<Longrightarrow> (a, b) = (k, v) \<or> (a, b) \<in> set al"
  by (induction al) (auto split: if_splits)

lemma butlast_neq: "p \<noteq> [] \<Longrightarrow> butlast p \<noteq> p"
  by (induction p) auto

lemma wf_put:
  assumes "wf_fs fs" "p \<noteq> []" "plain_list p" "lookup fs (butlast p) = Some Directory"
    and "n = Directory \<or> lookup fs p \<noteq> Some Directory"
  shows "wf_fs (put fs p n)"
proof -
  have new: "lookup (put fs p n) (butlast p) = Some Directory"
    using assms(2,4) butlast_neq[OF assms(2)] by (simp add: lookup_put)
  have "k \<noteq> [] \<and> plain_list k \<and> lookup (put fs p n) (butlast k) = Some Directory"
    if "(k, v) \<in> set (entries (put fs p n))" for k v
  proof -
    from that have "(k, v) = (p, n) \<or> (k, v) \<in> set (entries fs)"
      by (auto simp: put_def dest: in_update_cases)
    then show ?thesis
    proof
      assume "(k, v) = (p, n)"
      then show ?thesis using assms(2,3) new by simp
    next
      assume a: "(k, v) \<in> set (entries fs)"
      then have e: "k \<noteq> []" "plain_list k" "lookup fs (butlast k) = Some Directory"
        using wf_fs_entry[OF assms(1)] by blast+
      have "lookup (put fs p n) (butlast k) = Some Directory"
      proof (cases "butlast k = p")
        case True
        then show ?thesis using e(3) assms(5) by (auto simp: lookup_put)
      next
        case False
        then show ?thesis using e(3) by (simp add: lookup_put)
      qed
      then show ?thesis using e by simp
    qed
  qed
  then show ?thesis by (auto simp: wf_fs_def list_all_iff)
qed

lemma wf_remove_tree: "wf_fs fs \<Longrightarrow> wf_fs (remove_tree fs p)"
proof -
  assume w: "wf_fs fs"
  have "k \<noteq> [] \<and> plain_list k \<and> lookup (remove_tree fs p) (butlast k) = Some Directory"
    if "(k, v) \<in> set (entries (remove_tree fs p))" for k v
  proof -
    from that have m: "(k, v) \<in> set (entries fs)" and np: "\<not> prefix p k"
      by (auto simp: remove_tree_def)
    have e: "k \<noteq> []" "plain_list k" "lookup fs (butlast k) = Some Directory"
      using wf_fs_entry[OF w m] by blast+
    have "\<not> prefix p (butlast k)"
      using np by (meson prefix_order.trans prefixeq_butlast)
    then show ?thesis using e by (simp add: lookup_remove_tree)
  qed
  then show ?thesis by (auto simp: wf_fs_def list_all_iff)
qed

lemma mkdir_walk_dirs:
  "plain_list ss \<Longrightarrow> (\<forall>k<length ss. lookup fs (cur @ take k ss) = Some Directory) \<Longrightarrow>
     mkdir_walk fs cur (ss @ ts) = mkdir_walk fs (cur @ ss) ts"
proof (induction ss arbitrary: cur)
  case Nil then show ?case by simp
next
  case (Cons s ss)
  have c: "lookup fs cur = Some Directory" using Cons.prems(2)[rule_format, of 0] by simp
  have ps: "plain s" "plain_list ss" using Cons.prems(1) by (simp_all add: plain_list_def)
  have "\<forall>k<length ss. lookup fs ((cur @ [s]) @ take k ss) = Some Directory"
  proof (intro allI impI)
    fix k assume "k < length ss"
    then show "lookup fs ((cur @ [s]) @ take k ss) = Some Directory"
      using Cons.prems(2)[rule_format, of "Suc k"] by simp
  qed
  then have "mkdir_walk fs (cur @ [s]) (ss @ ts) = mkdir_walk fs ((cur @ [s]) @ ss) ts"
    using Cons.IH[OF ps(2)] by blast
  then show ?case using c ps(1) by (simp add: ensure_dir_def plain_def)
qed

lemma mkdir_recursive_walk: "plain_list p \<Longrightarrow> mkdir_recursive fs (abs_path p) = mkdir_walk fs [] p"
proof (cases "p = []")
  case True
  then show ?thesis by (simp add: mkdir_recursive_def abs_path_def ensure_dir_def)
next
  case False
  assume "plain_list p"
  then show ?thesis
    using False by (simp add: mkdir_recursive_def abs_path_nonempty split_abs_path ensure_dir_def)
qed

lemma mkdir_abs:
  assumes "wf_fs fs" "plain_list p" "p \<noteq> []" "lookup fs (butlast p) = Some Directory"
  shows "mkdir_recursive fs (abs_path p) = ensure_dir fs p True"
proof -
  have pb: "plain_list (butlast p)"
    using assms(2) by (auto simp: plain_list_def list_all_iff dest: in_set_butlastD)
  have pl: "plain (last p)" using assms(2,3) by (auto simp: plain_list_def list_all_iff)
  have d: "\<forall>k<length (butlast p). lookup fs ([] @ take k (butlast p)) = Some Directory"
    using wf_take[OF assms(1,4)] by simp
  have "mkdir_walk fs [] p = mkdir_walk fs [] (butlast p @ [last p])" using assms(3) by simp
  also have "\<dots> = mkdir_walk fs ([] @ butlast p) [last p]" using mkdir_walk_dirs[OF pb d] .
  also have "\<dots> = ensure_dir fs p True"
    using assms(3,4) pl by (simp add: ensure_dir_def plain_def)
  finally show ?thesis using assms(2) by (simp add: mkdir_recursive_walk)
qed

lemma mkdir_walk_inv:
  "plain_list ss \<Longrightarrow> plain_list cur \<Longrightarrow> wf_fs fs \<Longrightarrow>
   cur = [] \<or> lookup fs (butlast cur) = Some Directory \<Longrightarrow>
   mkdir_walk fs cur ss = Inr fs' \<Longrightarrow>
     wf_fs fs' \<and> lookup fs' (cur @ ss) = Some Directory
     \<and> (\<forall>q. lookup fs q \<noteq> None \<longrightarrow> lookup fs' q = lookup fs q)
     \<and> (\<forall>q. \<not> prefix q (cur @ ss) \<longrightarrow> lookup fs' q = lookup fs q)
     \<and> cwd fs' = cwd fs"
proof (induction ss arbitrary: fs cur)
  case Nil
  show ?case
  proof (cases "lookup fs cur")
    case None
    then have ne: "cur \<noteq> []" by auto
    have f: "fs' = put fs cur Directory" using Nil.prems(5) None by (simp add: ensure_dir_def)
    have "wf_fs fs'" unfolding f using wf_put[OF Nil.prems(3) ne Nil.prems(2)] Nil.prems(4) ne by simp
    then show ?thesis using f ne None by (auto simp: lookup_put)
  next
    case (Some n)
    then show ?thesis using Nil.prems(3,5) by (cases n) (auto simp: ensure_dir_def)
  qed
next
  case (Cons s ss)
  have ps: "plain s" "plain_list ss" using Cons.prems(1) by (simp_all add: plain_list_def)
  obtain fs1 where e: "ensure_dir fs cur False = Inr fs1"
    and m: "mkdir_walk fs1 (cur @ [s]) ss = Inr fs'"
    using Cons.prems(5) ps(1) by (auto simp: plain_def split: sum.splits)
  have one: "wf_fs fs1 \<and> lookup fs1 cur = Some Directory
     \<and> (\<forall>q. q \<noteq> cur \<longrightarrow> lookup fs1 q = lookup fs q)
     \<and> (\<forall>q. lookup fs q \<noteq> None \<longrightarrow> lookup fs1 q = lookup fs q) \<and> cwd fs1 = cwd fs"
  proof (cases "lookup fs cur")
    case None
    then have ne: "cur \<noteq> []" by auto
    have f: "fs1 = put fs cur Directory" using e None by (simp add: ensure_dir_def)
    have "wf_fs fs1" unfolding f using wf_put[OF Cons.prems(3) ne Cons.prems(2)] Cons.prems(4) ne by simp
    then show ?thesis using f ne None by (auto simp: lookup_put)
  next
    case (Some n)
    then show ?thesis using Cons.prems(3) e by (cases n) (auto simp: ensure_dir_def)
  qed
  have pc: "plain_list (cur @ [s])" using Cons.prems(2) ps(1) by (simp add: plain_list_def)
  have ih: "wf_fs fs' \<and> lookup fs' ((cur @ [s]) @ ss) = Some Directory
     \<and> (\<forall>q. lookup fs1 q \<noteq> None \<longrightarrow> lookup fs' q = lookup fs1 q)
     \<and> (\<forall>q. \<not> prefix q ((cur @ [s]) @ ss) \<longrightarrow> lookup fs' q = lookup fs1 q)
     \<and> cwd fs' = cwd fs1"
    using Cons.IH[OF ps(2) pc _ _ m] one by simp
  have fr1: "\<forall>q. lookup fs q \<noteq> None \<longrightarrow> lookup fs' q = lookup fs q"
    using one ih by metis
  have fr2: "\<forall>q. \<not> prefix q (cur @ s # ss) \<longrightarrow> lookup fs' q = lookup fs q"
  proof (intro allI impI)
    fix q assume np: "\<not> prefix q (cur @ s # ss)"
    then have "q \<noteq> cur" by auto
    then show "lookup fs' q = lookup fs q" using one ih np by simp
  qed
  show ?case using ih one fr1 fr2 by simp
qed

lemma mkdir_recursive_inv:
  assumes "wf_fs fs" "plain_list p" "mkdir_recursive fs (abs_path p) = Inr fs'"
  shows "wf_fs fs' \<and> lookup fs' p = Some Directory
     \<and> (\<forall>q. lookup fs q \<noteq> None \<longrightarrow> lookup fs' q = lookup fs q)
     \<and> (\<forall>q. \<not> prefix q p \<longrightarrow> lookup fs' q = lookup fs q)
     \<and> cwd fs' = cwd fs"
proof -
  have m: "mkdir_walk fs [] p = Inr fs'" using assms(2,3) by (simp add: mkdir_recursive_walk)
  have e: "plain_list []" by (simp add: plain_list_def)
  show ?thesis using mkdir_walk_inv[OF assms(2) e assms(1) _ m] by simp
qed

lemma resolve_abs_parent:
  assumes "wf_fs fs" "plain_list p" "lookup fs (butlast p) = Some Directory"
  shows "resolve fs (abs_path p) = Inr p"
  by (rule resolve_abs[OF assms(1,2)]) (simp add: assms(3))

lemma resolve_abs_existing:
  assumes "wf_fs fs" "plain_list p" "lookup fs p = Some n"
  shows "resolve fs (abs_path p) = Inr p"
  by (rule resolve_abs_parent[OF assms(1,2) wf_parent[OF assms(1,3)]])

lemma writeFile_abs:
  assumes "wf_fs fs" "plain_list p" "p \<noteq> []" "lookup fs (butlast p) = Some Directory"
  shows "writeFile fs (abs_path p) c =
           (if lookup fs p = Some Directory then Inl EISDIR else Inr (put fs p (File c)))"
proof -
  have r: "resolve fs (abs_path p) = Inr p" by (rule resolve_abs_parent[OF assms(1,2,4)])
  show ?thesis unfolding writeFile_def r using assms(3,4) by simp
qed

lemma readFile_abs:
  assumes "wf_fs fs" "plain_list p" "lookup fs p = Some n"
  shows "readFile fs (abs_path p) = (case n of File c \<Rightarrow> Inr c | Directory \<Rightarrow> Inl EISDIR)"
proof -
  have r: "resolve fs (abs_path p) = Inr p" by (rule resolve_abs_existing[OF assms])
  show ?thesis unfolding readFile_def r using assms(3) by (simp split: fnode.splits)
qed

lemma stat_abs:
  assumes "wf_fs fs" "plain_list p" "lookup fs p = Some n"
  shows "stat fs (abs_path p) = Inr n"
proof -
  have r: "resolve fs (abs_path p) = Inr p" by (rule resolve_abs_existing[OF assms])
  show ?thesis unfolding stat_def r using assms(3) by simp
qed

lemma readdir_abs:
  assumes "wf_fs fs" "plain_list p" "lookup fs p = Some Directory"
  shows "readdir fs (abs_path p) = Inr (children fs p)"
proof -
  have r: "resolve fs (abs_path p) = Inr p" by (rule resolve_abs_existing[OF assms])
  show ?thesis unfolding readdir_def r using assms(3) by simp
qed

lemma children_iff: "c \<in> set (children fs p) \<longleftrightarrow> lookup fs (p @ [c]) \<noteq> None"
proof
  assume "c \<in> set (children fs p)"
  then obtain k where k: "k \<in> fst ` set (entries fs)" "k \<noteq> []" "butlast k = p" "last k = c"
    by (auto simp: children_def)
  have "butlast k @ [last k] = k" using k(2) by simp
  then have "k = p @ [c]" using k(3,4) by simp
  then show "lookup fs (p @ [c]) \<noteq> None"
    using k(1) by (simp add: lookup_def map_of_eq_None_iff)
next
  assume "lookup fs (p @ [c]) \<noteq> None"
  then have "p @ [c] \<in> fst ` set (entries fs)"
    by (simp add: lookup_def map_of_eq_None_iff)
  then have m: "p @ [c] \<in> set (filter (\<lambda>k. k \<noteq> [] \<and> butlast k = p) (map fst (entries fs)))"
    by simp
  have "last (p @ [c]) \<in> last ` set (filter (\<lambda>k. k \<noteq> [] \<and> butlast k = p) (map fst (entries fs)))"
    using m by (rule imageI)
  then show "c \<in> set (children fs p)" by (simp add: children_def)
qed

section \<open>The normal form of joined paths\<close>

lemma split_on_nonempty: "split_on c xs \<noteq> []"
  by (induction xs) (auto split: list.splits)

lemma split_on_no_sep: "s \<in> set (split_on c xs) \<Longrightarrow> c \<notin> set s"
proof (induction xs arbitrary: s)
  case Nil then show ?case by simp
next
  case (Cons x xs)
  obtain h t where ht: "split_on c xs = h # t"
    using split_on_nonempty[of c xs] by (cases "split_on c xs") auto
  have h: "c \<notin> set h" using Cons.IH[of h] ht by simp
  have t: "\<And>u. u \<in> set t \<Longrightarrow> c \<notin> set u" using Cons.IH ht by simp
  show ?case
  proof (cases "x = c")
    case True
    then show ?thesis using Cons.prems h t ht by auto
  next
    case False
    then show ?thesis using Cons.prems h t ht by auto
  qed
qed

lemma normalizeString_plain_out:
  "\<forall>s \<in> set ss. CHR ''/'' \<notin> set s \<Longrightarrow> plain_list res \<Longrightarrow>
     plain_list (normalizeString False res ss)"
proof (induction ss arbitrary: res)
  case Nil then show ?case by simp
next
  case (Cons s ss)
  have b: "plain_list (butlast res)"
    using Cons.prems(2) by (auto simp: plain_list_def list_all_iff dest: in_set_butlastD)
  have a: "s \<noteq> [] \<Longrightarrow> s \<noteq> ''.'' \<Longrightarrow> s \<noteq> ''..'' \<Longrightarrow> plain_list (res @ [s])"
    using Cons.prems by (simp add: plain_list_def plain_def)
  show ?case using Cons.IH Cons.prems b a by simp
qed

lemma normalizeString_append:
  "normalizeString a res (xs @ ys) = normalizeString a (normalizeString a res xs) ys"
  by (induction xs arbitrary: res) auto

lemma is_absolute_abs_path: "is_absolute (abs_path qs)" "is_absolute (abs_path qs @ t)"
  by (cases qs; simp add: is_absolute_def abs_path_def slashed_def)+

lemma path_join_normal_form:
  assumes "is_absolute a"
  shows "\<exists>qs. plain_list qs \<and>
           (path_join (a # rest) = abs_path qs \<or> (qs \<noteq> [] \<and> path_join (a # rest) = abs_path qs @ ''/''))"
proof -
  let ?j = "join_segs (filter (\<lambda>a. a \<noteq> []) (a # rest))"
  have j: "?j = a @ slashed (filter (\<lambda>a. a \<noteq> []) rest)"
    using assms by (simp add: is_absolute_def join_segs_cons)
  then have jne: "?j \<noteq> []" and jhd: "hd ?j = CHR ''/''"
    using assms by (simp_all add: is_absolute_def)
  let ?qs = "normalizeString False [] (split_on CHR ''/'' ?j)"
  have pq: "plain_list ?qs"
    by (rule normalizeString_plain_out) (auto dest: split_on_no_sep simp: plain_list_def)
  have pj: "path_join (a # rest) = path_normalize ?j"
    using jne by (simp add: path_join_def Let_def)
  show ?thesis
  proof (cases "?qs = []")
    case True
    then have "path_normalize ?j = abs_path ?qs"
      using jne jhd by (simp add: path_normalize_def Let_def abs_path_def)
    then show ?thesis using pq pj by metis
  next
    case False
    then have jn: "join_segs ?qs \<noteq> []" using pq by (simp add: join_segs_Nil_iff)
    have sl: "CHR ''/'' # join_segs ?qs = slashed ?qs" using False by (rule join_segs_slashed)
    have "path_normalize ?j = abs_path ?qs \<or> path_normalize ?j = abs_path ?qs @ ''/''"
      using jne jhd jn False sl by (auto simp: path_normalize_def Let_def abs_path_def)
    then show ?thesis using pq pj False by metis
  qed
qed

lemma path_join_absolute: "is_absolute a \<Longrightarrow> is_absolute (path_join (a # rest))"
  using path_join_normal_form[of a rest] is_absolute_abs_path by metis

lemma server_root_absolute: "is_absolute dirname \<Longrightarrow> is_absolute (server_root dirname serverName)"
  by (simp add: server_root_def path_join_absolute)

lemma split_on_slashed_app:
  "CHR ''/'' \<notin> set s \<Longrightarrow> plain_list ds \<Longrightarrow>
     split_on CHR ''/'' (s @ slashed ds @ CHR ''/'' # t) = (s # ds) @ split_on CHR ''/'' t"
proof (induction ds arbitrary: s)
  case Nil
  then show ?case by (simp add: slashed_def split_on_append)
next
  case (Cons d ds)
  have d: "CHR ''/'' \<notin> set d" and ds: "plain_list ds"
    using Cons.prems(2) by (auto simp: plain_list_def plain_def)
  have "s @ slashed (d # ds) @ CHR ''/'' # t = s @ CHR ''/'' # (d @ slashed ds @ CHR ''/'' # t)"
    by (simp add: slashed_def)
  then show ?case
    using Cons.IH[OF d ds] Cons.prems(1) by (simp add: split_on_append)
qed

lemma path_join_trailing:
  assumes "plain_list qs" "qs \<noteq> []" "plain f"
  shows "path_join [abs_path qs @ ''/'', f] = abs_path (qs @ [f])"
proof -
  have fne: "f \<noteq> []" and fs: "CHR ''/'' \<notin> set f" using assms(3) by (auto simp: plain_def)
  have j: "join_segs (filter (\<lambda>a. a \<noteq> []) [abs_path qs @ ''/'', f]) = slashed qs @ CHR ''/'' # CHR ''/'' # f"
    using assms(2) fne by (simp add: abs_path_def)
  have sp: "split_on CHR ''/'' (slashed qs @ CHR ''/'' # CHR ''/'' # f) = ([] # qs) @ [[], f]"
    using split_on_slashed_app[of "[]" qs "CHR ''/'' # f"] assms(1) fs
    by (simp add: split_on_none)
  have pl: "plain_list (qs @ [f])" using assms by (simp add: plain_list_def)
  have ns: "normalizeString False [] (([] # qs) @ [[], f]) = qs @ [f]"
    using assms by (simp add: normalizeString_append normalizeString_plain) (simp add: plain_def)
  have hdj: "hd (slashed qs @ CHR ''/'' # CHR ''/'' # f) = CHR ''/''"
    using assms(2) by (cases qs) (auto simp: slashed_def)
  have lst: "last (slashed qs @ CHR ''/'' # CHR ''/'' # f) \<noteq> CHR ''/''"
    using fne fs by (auto intro: last_in_set) (metis last_in_set)
  have jn: "join_segs (qs @ [f]) \<noteq> []" using pl by (simp add: join_segs_Nil_iff)
  have sl: "CHR ''/'' # join_segs (qs @ [f]) = slashed (qs @ [f])" by (rule join_segs_slashed) simp
  show ?thesis
    using j sp ns hdj lst jn sl
    by (simp add: path_join_def path_normalize_def Let_def abs_path_def)
qed

lemma existsSync_trailing:
  assumes "wf_fs fs" "plain_list qs" "qs \<noteq> []" "lookup fs qs = Some Directory"
  shows "existsSync fs (abs_path qs @ ''/'')"
proof -
  have sp: "split_on CHR ''/'' (slashed qs @ ''/'') = ([] # qs) @ [[]]"
    using split_on_slashed_app[of "[]" qs "[]"] assms(2) by simp
  have r: "resolve fs (abs_path qs) = Inr qs"
    using resolve_abs[OF assms(1,2)] wf_parent[OF assms(1,4)] by simp
  then have w: "walk fs [] qs = Inr qs" using assms(2) by (simp add: resolve_abs_walk)
  have "resolve fs (abs_path qs @ ''/'') = walk fs [] (([] # qs) @ [[]])"
    using assms(3) sp by (cases qs) (auto simp: resolve_def abs_path_def slashed_def)
  also have "\<dots> = walk fs [] (qs @ [[]])" by simp
  also have "\<dots> = Inr qs" using w assms(4) by (simp add: walk_append)
  finally show ?thesis using assms(4) by (simp add: existsSync_def node_at_def)
qed

lemma parent_of_existing_entry:
  assumes "wf_fs fs" "is_absolute d" "plain f"
    and "existsSync fs (path_join [path_join (d # rest), f])"
  shows "existsSync fs (path_join (d # rest))"
proof -
  obtain qs where qs: "plain_list qs"
    and nf: "path_join (d # rest) = abs_path qs \<or> (qs \<noteq> [] \<and> path_join (d # rest) = abs_path qs @ ''/'')"
    using path_join_normal_form[OF assms(2)] by blast
  have pf: "plain_list [f]" using assms(3) by (simp add: plain_list_def)
  have pqf: "plain_list (qs @ [f])" using qs assms(3) by (simp add: plain_list_def)
  have e: "path_join [path_join (d # rest), f] = abs_path (qs @ [f])"
    using nf path_join_abs[OF qs pf] path_join_trailing[OF qs _ assms(3)] by auto
  then have "lookup fs (qs @ [f]) \<noteq> None"
    using assms(4) existsSync_abs[OF assms(1) pqf] by simp
  then obtain n where "lookup fs (qs @ [f]) = Some n" by auto
  then have dir: "lookup fs qs = Some Directory" using wf_parent[OF assms(1)] by fastforce
  show ?thesis
    using nf dir existsSync_abs[OF assms(1) qs] existsSync_trailing[OF assms(1) qs _ dir] by auto
qed

section \<open>Starting a server\<close>

lemma find_None_iff_name: "find (\<lambda>process. pname process = s) ps = None \<longleftrightarrow> s \<notin> pname ` set ps"
  by (auto simp: find_None_iff)

lemma find_append_new:
  "s \<notin> pname ` set ps \<Longrightarrow> pname p = s \<Longrightarrow> find (\<lambda>process. pname process = s) (ps @ [p]) = Some p"
  by (induction ps) auto

lemma flags_process_events [simp]:
  "connect_fails (pm2_process_events evs pm) = connect_fails pm"
  "list_fails (pm2_process_events evs pm) = list_fails pm"
  "start_fails (pm2_process_events evs pm) = start_fails pm"
  by (induction evs arbitrary: pm) (simp_all add: pm2_process_events_def pm2_process_event_def)

lemma names_process_events [simp]:
  "map pname (procs (pm2_process_events evs pm)) = map pname (procs pm)"
  by (induction evs arbitrary: pm)
     (simp_all add: pm2_process_events_def pm2_process_event_def comp_def)

lemma process_events_append:
  "pm2_process_events (xs @ ys) pm = pm2_process_events ys (pm2_process_events xs pm)"
  by (simp add: pm2_process_events_def)

lemma process_events_Cons:
  "pm2_process_events (ev # evs) pm = pm2_process_events evs (pm2_process_event ev pm)"
  by (simp add: pm2_process_events_def)

lemma find_process_event:
  "find (\<lambda>process. pname process = s) (procs (pm2_process_event ev pm)) =
     map_option (\<lambda>process. if ev_name ev = s
                            then process\<lparr>pstatus := ev_status ev, pid := ev_pid ev,
                                         pm_uptime := ev_since ev\<rparr>
                            else process)
       (find (\<lambda>process. pname process = s) (procs pm))"
proof -
  have "find (\<lambda>process. pname process = s) (map f ps) = map_option f (find (\<lambda>process. pname process = s) ps)"
    if "\<And>process. pname (f process) = pname process" for f and ps :: "proc list"
    using that by (induction ps) auto
  from this[of "\<lambda>process. if pname process = ev_name ev
                                  then process\<lparr>pstatus := ev_status ev, pid := ev_pid ev,
                                               pm_uptime := ev_since ev\<rparr>
                                  else process" "procs pm"]
  show ?thesis
    by (auto simp: pm2_process_event_def map_option_case split: option.splits dest: find_Some_iff[THEN iffD1])
qed

lemma find_other_events:
  "\<forall>ev \<in> set evs. ev_name ev \<noteq> s \<Longrightarrow>
   find (\<lambda>process. pname process = s) (procs (pm2_process_events evs pm)) =
   find (\<lambda>process. pname process = s) (procs pm)"
proof (induction evs arbitrary: pm)
  case Nil then show ?case by (simp add: pm2_process_events_def)
next
  case (Cons ev evs)
  have "find (\<lambda>process. pname process = s) (procs (pm2_process_event ev pm)) =
        find (\<lambda>process. pname process = s) (procs pm)"
    using Cons.prems by (simp add: find_process_event option.map_ident)
  then show ?case using Cons by (simp add: process_events_Cons)
qed

lemma find_present_events:
  "s \<in> pname ` set (procs pm) \<Longrightarrow>
   \<exists>q. find (\<lambda>process. pname process = s) (procs (pm2_process_events evs pm)) = Some q"
proof -
  assume "s \<in> pname ` set (procs pm)"
  then have "s \<in> set (map pname (procs (pm2_process_events evs pm)))" by simp
  then have "s \<in> pname ` set (procs (pm2_process_events evs pm))" by (simp del: names_process_events)
  then show ?thesis using find_None_iff_name[of s "procs (pm2_process_events evs pm)"] by auto
qed

lemma status_relays:
  assumes "\<not> connect_fails pm" "\<not> list_fails pm"
    and "find (\<lambda>process. pname process = s) (procs pm) = Some q"
  shows "get_api_servers_status pm s later =
           (Resp 200 (ProcessStatus (pstatus q = ''online'') (pstatus q) (pid q)
                        (if pstatus q = ''online'' then (later - pm_uptime q) div 1000 else 0)), pm)"
  using assms by (simp add: get_api_servers_status_def)

lemma status_after_events:
  assumes "\<not> connect_fails pm" "\<not> list_fails pm" "s \<in> pname ` set (procs pm)"
    and "ev_name ev = s" "\<forall>e \<in> set evs2. ev_name e \<noteq> s"
  shows "fst (get_api_servers_status (pm2_process_events (evs1 @ ev # evs2) pm) s later) =
           Resp 200 (ProcessStatus (ev_status ev = ''online'') (ev_status ev) (ev_pid ev)
                        (if ev_status ev = ''online'' then (later - ev_since ev) div 1000 else 0))"
proof -
  let ?pm1 = "pm2_process_events evs1 pm"
  obtain q where q: "find (\<lambda>process. pname process = s) (procs ?pm1) = Some q"
    using find_present_events[OF assms(3)] by blast
  let ?q' = "q\<lparr>pstatus := ev_status ev, pid := ev_pid ev, pm_uptime := ev_since ev\<rparr>"
  have "find (\<lambda>process. pname process = s) (procs (pm2_process_event ev ?pm1)) = Some ?q'"
    using q assms(4) by (simp add: find_process_event)
  then have f: "find (\<lambda>process. pname process = s)
                  (procs (pm2_process_events (evs1 @ ev # evs2) pm)) = Some ?q'"
    using find_other_events[OF assms(5)] by (simp add: process_events_append process_events_Cons)
  have c: "\<not> connect_fails (pm2_process_events (evs1 @ ev # evs2) pm)"
    and l: "\<not> list_fails (pm2_process_events (evs1 @ ev # evs2) pm)" using assms(1,2) by simp_all
  show ?thesis unfolding status_relays[OF c l f] by simp
qed

text \<open>
  Claim C7, as stated, fails on the code. No process named \<open>s1\<close> is listed and
  \<open>start\<close> answers success: PM2 has launched the process. The process then exits
  (there is no \<open>server.jar\<close> under the root of \<open>s1\<close>) and PM2 records it as
  \<open>errored\<close>. The status route relays what PM2 lists at the time of the request, so
  \<open>status\<close> now reports \<open>running: false\<close>.
\<close>

theorem status_after_exit_is_not_running:
  "''s1'' \<notin> pname ` set (procs (demo_pm2 []))
   \<and> node_at demo_fs ''/app/servers/s1/server.jar'' = None
   \<and> fst (post_api_servers_start demo_fs (demo_pm2 []) ''/app'' ''s1'' 1000) =
        Resp 200 (Message ''Server started successfully'')
   \<and> fst (get_api_servers_status
            (pm2_process_events [ProcessEvent ''s1'' ''errored'' 0 0]
               (snd (post_api_servers_start demo_fs (demo_pm2 []) ''/app'' ''s1'' 1000)))
            ''s1'' 9000) =
        Resp 200 (ProcessStatus False ''errored'' 0 0)"
proof -
  have a: "''s1'' \<notin> pname ` set (procs (demo_pm2 []))" by (simp add: demo_pm2_def)
  have b: "fst (post_api_servers_start demo_fs (demo_pm2 []) ''/app'' ''s1'' 1000) =
        Resp 200 (Message ''Server started successfully'')" by code_simp
  have c: "fst (get_api_servers_status
            (pm2_process_events [ProcessEvent ''s1'' ''errored'' 0 0]
               (snd (post_api_servers_start demo_fs (demo_pm2 []) ''/app'' ''s1'' 1000)))
            ''s1'' 9000) =
        Resp 200 (ProcessStatus False ''errored'' 0 0)" by code_simp
  have j: "node_at demo_fs ''/app/servers/s1/server.jar'' = None" by code_simp
  show ?thesis by (intro conjI a j b c)
qed

text \<open>
  Claim C7, amended. With the process manager reachable (connecting and listing
  succeed): when no process named \<open>serverName\<close> is in the process list, the server's
  root directory exists and the manager accepts the start, \<open>start\<close> answers success
  and appends exactly one process, named \<open>serverName\<close> and with the server's root
  directory as working directory. A later \<open>status\<close> relays what PM2 has recorded
  for that process when the request arrives: \<open>running: true\<close> with status
  \<open>online\<close> as long as no event of that process has happened since the start
  (events of other processes do not matter); after an event of that process, the
  status, process id and start time of its last event, \<open>running\<close> being true exactly
  when that status is \<open>online\<close>. No event changes the names in the list. When a
  process of that name is in the list, whatever its status, \<open>start\<close> answers
  success and the manager's state is unchanged.
\<close>

theorem start_registers_and_status_relays:
  assumes "\<not> connect_fails pm" and "\<not> list_fails pm"
  shows "(serverName \<notin> pname ` set (procs pm) \<and> existsSync fs (server_root dirname serverName)
            \<and> \<not> start_fails pm \<longrightarrow>
          (\<exists>p pm'. post_api_servers_start fs pm dirname serverName now =
                     (Resp 200 (Message ''Server started successfully''), pm')
                 \<and> procs pm' = procs pm @ [p]
                 \<and> pname p = serverName
                 \<and> pcwd p = server_root dirname serverName
                 \<and> (\<forall>evs later. (\<forall>e \<in> set evs. ev_name e \<noteq> serverName) \<longrightarrow>
                       fst (get_api_servers_status (pm2_process_events evs pm') serverName later) =
                         Resp 200 (ProcessStatus True ''online'' (pid p) ((later - now) div 1000)))
                 \<and> (\<forall>evs1 ev evs2 later.
                       ev_name ev = serverName \<and> (\<forall>e \<in> set evs2. ev_name e \<noteq> serverName) \<longrightarrow>
                       fst (get_api_servers_status
                              (pm2_process_events (evs1 @ ev # evs2) pm') serverName later) =
                         Resp 200 (ProcessStatus (ev_status ev = ''online'') (ev_status ev) (ev_pid ev)
                                     (if ev_status ev = ''online''
                                      then (later - ev_since ev) div 1000 else 0)))
                 \<and> (\<forall>evs. map pname (procs (pm2_process_events evs pm')) =
                            map pname (procs pm) @ [serverName])))
       \<and> (serverName \<in> pname ` set (procs pm) \<longrightarrow>
            post_api_servers_start fs pm dirname serverName now =
              (Resp 200 (Message ''Server is already running''), pm))"
proof (intro conjI impI)
  assume a: "serverName \<notin> pname ` set (procs pm) \<and> existsSync fs (server_root dirname serverName)
            \<and> \<not> start_fails pm"
  then have f: "find (\<lambda>process. pname process = serverName) (procs pm) = None"
    by (simp add: find_None_iff_name)
  define p where "p = \<lparr>pname = serverName, pm_id = next_pm_id pm, pid = next_pid pm,
      pstatus = ''online'', pm_uptime = now, pcwd = server_root dirname serverName,
      pscript = ''java'', pargs = [''-Xmx1024M'', ''-Xms1024M'', ''-jar'', ''server.jar'', ''nogui''],
      pinterpreter = ''none'',
      out_file = path_join [server_root dirname serverName, ''logs'', ''server.log''],
      error_file = path_join [server_root dirname serverName, ''logs'', ''server-error.log''],
      combine_logs = True, log_date_format = ''YYYY-MM-DD HH:mm:ss''\<rparr>"
  define pm' where "pm' = pm\<lparr>procs := procs pm @ [p], next_pm_id := Suc (next_pm_id pm),
      next_pid := Suc (next_pid pm)\<rparr>"
  have st: "post_api_servers_start fs pm dirname serverName now =
            (Resp 200 (Message ''Server started successfully''), pm')"
    using a f assms
    by (simp add: post_api_servers_start_def pm2_start_def server_root_def Let_def p_def pm'_def)
  have pr: "procs pm' = procs pm @ [p]" by (simp add: pm'_def)
  have pn: "pname p = serverName" by (simp add: p_def)
  have pc: "pcwd p = server_root dirname serverName" by (simp add: p_def)
  have c': "\<not> connect_fails pm'" and l': "\<not> list_fails pm'" using assms by (simp_all add: pm'_def)
  have fnd: "find (\<lambda>process. pname process = serverName) (procs pm') = Some p"
    using a by (simp add: pm'_def find_append_new p_def)
  have here: "serverName \<in> pname ` set (procs pm')" by (simp add: pr pn)
  have quiet: "\<forall>evs later. (\<forall>e \<in> set evs. ev_name e \<noteq> serverName) \<longrightarrow>
                       fst (get_api_servers_status (pm2_process_events evs pm') serverName later) =
                         Resp 200 (ProcessStatus True ''online'' (pid p) ((later - now) div 1000))"
  proof (intro allI impI)
    fix evs later assume o: "\<forall>e \<in> set evs. ev_name e \<noteq> serverName"
    have f': "find (\<lambda>process. pname process = serverName) (procs (pm2_process_events evs pm')) = Some p"
      using find_other_events[OF o] fnd by simp
    have c'': "\<not> connect_fails (pm2_process_events evs pm')"
      and l'': "\<not> list_fails (pm2_process_events evs pm')" using c' l' by simp_all
    show "fst (get_api_servers_status (pm2_process_events evs pm') serverName later) =
            Resp 200 (ProcessStatus True ''online'' (pid p) ((later - now) div 1000))"
      unfolding status_relays[OF c'' l'' f'] by (simp add: p_def)
  qed
  have live: "\<forall>evs1 ev evs2 later.
                ev_name ev = serverName \<and> (\<forall>e \<in> set evs2. ev_name e \<noteq> serverName) \<longrightarrow>
                fst (get_api_servers_status
                       (pm2_process_events (evs1 @ ev # evs2) pm') serverName later) =
                  Resp 200 (ProcessStatus (ev_status ev = ''online'') (ev_status ev) (ev_pid ev)
                              (if ev_status ev = ''online''
                               then (later - ev_since ev) div 1000 else 0))"
  proof (intro allI impI)
    fix evs1 ev evs2 later
    assume h: "ev_name ev = serverName \<and> (\<forall>e \<in> set evs2. ev_name e \<noteq> serverName)"
    show "fst (get_api_servers_status
                       (pm2_process_events (evs1 @ ev # evs2) pm') serverName later) =
                  Resp 200 (ProcessStatus (ev_status ev = ''online'') (ev_status ev) (ev_pid ev)
                              (if ev_status ev = ''online''
                               then (later - ev_since ev) div 1000 else 0))"
      by (rule status_after_events[OF c' l' here]) (simp_all add: h)
  qed
  have names: "\<forall>evs. map pname (procs (pm2_process_events evs pm')) =
                            map pname (procs pm) @ [serverName]"
    by (simp add: pr pn)
  show "\<exists>p pm'. post_api_servers_start fs pm dirname serverName now =
                     (Resp 200 (Message ''Server started successfully''), pm')
                 \<and> procs pm' = procs pm @ [p]
                 \<and> pname p = serverName
                 \<and> pcwd p = server_root dirname serverName
                 \<and> (\<forall>evs later. (\<forall>e \<in> set evs. ev_name e \<noteq> serverName) \<longrightarrow>
                       fst (get_api_servers_status (pm2_process_events evs pm') serverName later) =
                         Resp 200 (ProcessStatus True ''online'' (pid p) ((later - now) div 1000)))
                 \<and> (\<forall>evs1 ev evs2 later.
                       ev_name ev = serverName \<and> (\<forall>e \<in> set evs2. ev_name e \<noteq> serverName) \<longrightarrow>
                       fst (get_api_servers_status
                              (pm2_process_events (evs1 @ ev # evs2) pm') serverName later) =
                         Resp 200 (ProcessStatus (ev_status ev = ''online'') (ev_status ev) (ev_pid ev)
                                     (if ev_status ev = ''online''
                                      then (later - ev_since ev) div 1000 else 0)))
                 \<and> (\<forall>evs. map pname (procs (pm2_process_events evs pm')) =
                            map pname (procs pm) @ [serverName])"
    by (rule exI[of _ p], rule exI[of _ pm']) (intro conjI st pr pn pc quiet live names)
next
  assume "serverName \<in> pname ` set (procs pm)"
  then have "find (\<lambda>process. pname process = serverName) (procs pm) \<noteq> None"
    by (simp add: find_None_iff_name)
  then show "post_api_servers_start fs pm dirname serverName now =
              (Resp 200 (Message ''Server is already running''), pm)"
    using assms by (auto simp: post_api_servers_start_def)
qed

theorem start_registers_and_status_relays_witness:
  "\<not> connect_fails (demo_pm2 []) \<and> \<not> list_fails (demo_pm2 [])
   \<and> ''s1'' \<notin> pname ` set (procs (demo_pm2 []))
   \<and> existsSync demo_fs (server_root ''/app'' ''s1'')
   \<and> \<not> start_fails (demo_pm2 [])
   \<and> (\<exists>p pm'. post_api_servers_start demo_fs (demo_pm2 []) ''/app'' ''s1'' 1000 =
                  (Resp 200 (Message ''Server started successfully''), pm')
              \<and> procs pm' = procs (demo_pm2 []) @ [p]
              \<and> pname p = ''s1''
              \<and> pcwd p = server_root ''/app'' ''s1''
              \<and> fst (get_api_servers_status (pm2_process_events [] pm') ''s1'' 61000) =
                    Resp 200 (ProcessStatus True ''online'' (pid p) 60)
              \<and> fst (get_api_servers_status
                       (pm2_process_events [ProcessEvent ''s1'' ''errored'' 0 0] pm') ''s1'' 61000) =
                    Resp 200 (ProcessStatus False ''errored'' 0 0))
   \<and> \<not> connect_fails (demo_pm2 [crashed_proc]) \<and> \<not> list_fails (demo_pm2 [crashed_proc])
   \<and> ''s1'' \<in> pname ` set (procs (demo_pm2 [crashed_proc]))
   \<and> post_api_servers_start demo_fs (demo_pm2 [crashed_proc]) ''/app'' ''s1'' 1000 =
         (Resp 200 (Message ''Server is already running''), demo_pm2 [crashed_proc])"
proof -
  have c0: "\<not> connect_fails (demo_pm2 [])" and l0: "\<not> list_fails (demo_pm2 [])"
    by (simp_all add: demo_pm2_def)
  have a0: "''s1'' \<notin> pname ` set (procs (demo_pm2 []))" by (simp add: demo_pm2_def)
  have e0: "existsSync demo_fs (server_root ''/app'' ''s1'')" by code_simp
  have s0: "\<not> start_fails (demo_pm2 [])" by (simp add: demo_pm2_def)
  have c1: "\<not> connect_fails (demo_pm2 [crashed_proc])" and l1: "\<not> list_fails (demo_pm2 [crashed_proc])"
    by (simp_all add: demo_pm2_def)
  have a1: "''s1'' \<in> pname ` set (procs (demo_pm2 [crashed_proc]))"
    by (simp add: demo_pm2_def crashed_proc_def demo_proc_def)
  note t0 = start_registers_and_status_relays [OF c0 l0, of "''s1''" demo_fs "''/app''" 1000]
  note t1 = start_registers_and_status_relays [OF c1 l1, of "''s1''" demo_fs "''/app''" 1000]
  obtain p pm' where r:
    "post_api_servers_start demo_fs (demo_pm2 []) ''/app'' ''s1'' 1000 =
       (Resp 200 (Message ''Server started successfully''), pm')"
    "procs pm' = procs (demo_pm2 []) @ [p]" "pname p = ''s1''"
    "pcwd p = server_root ''/app'' ''s1''"
    "\<forall>evs later. (\<forall>e \<in> set evs. ev_name e \<noteq> ''s1'') \<longrightarrow>
        fst (get_api_servers_status (pm2_process_events evs pm') ''s1'' later) =
          Resp 200 (ProcessStatus True ''online'' (pid p) ((later - 1000) div 1000))"
    "\<forall>evs1 ev evs2 later.
        ev_name ev = ''s1'' \<and> (\<forall>e \<in> set evs2. ev_name e \<noteq> ''s1'') \<longrightarrow>
        fst (get_api_servers_status (pm2_process_events (evs1 @ ev # evs2) pm') ''s1'' later) =
          Resp 200 (ProcessStatus (ev_status ev = ''online'') (ev_status ev) (ev_pid ev)
                      (if ev_status ev = ''online'' then (later - ev_since ev) div 1000 else 0))"
    using t0[THEN conjunct1, rule_format, OF conjI[OF a0 conjI[OF e0 s0]]] by blast
  have q: "fst (get_api_servers_status (pm2_process_events [] pm') ''s1'' 61000) =
             Resp 200 (ProcessStatus True ''online'' (pid p) 60)"
    using r(5)[rule_format, of "[]" 61000] by simp
  have x: "fst (get_api_servers_status
                  (pm2_process_events [ProcessEvent ''s1'' ''errored'' 0 0] pm') ''s1'' 61000) =
             Resp 200 (ProcessStatus False ''errored'' 0 0)"
    using r(6)[rule_format, of "ProcessEvent ''s1'' ''errored'' 0 0" "[]" "[]" 61000] by simp
  have ex: "\<exists>p pm'. post_api_servers_start demo_fs (demo_pm2 []) ''/app'' ''s1'' 1000 =
                  (Resp 200 (Message ''Server started successfully''), pm')
              \<and> procs pm' = procs (demo_pm2 []) @ [p]
              \<and> pname p = ''s1''
              \<and> pcwd p = server_root ''/app'' ''s1''
              \<and> fst (get_api_servers_status (pm2_process_events [] pm') ''s1'' 61000) =
                    Resp 200 (ProcessStatus True ''online'' (pid p) 60)
              \<and> fst (get_api_servers_status
                       (pm2_process_events [ProcessEvent ''s1'' ''errored'' 0 0] pm') ''s1'' 61000) =
                    Resp 200 (ProcessStatus False ''errored'' 0 0)"
    by (rule exI[of _ p], rule exI[of _ pm']) (intro conjI r(1) r(2) r(3) r(4) q x)
  have present: "post_api_servers_start demo_fs (demo_pm2 [crashed_proc]) ''/app'' ''s1'' 1000 =
         (Resp 200 (Message ''Server is already running''), demo_pm2 [crashed_proc])"
    using t1[THEN conjunct2, rule_format, OF a1] .
  show ?thesis by (intro conjI c0 l0 a0 e0 s0 ex c1 l1 a1 present)
qed

section \<open>Sending a command\<close>

lemma command_rejections:
  "falsy c \<Longrightarrow> post_api_servers_command pm s c = (Resp 400 (Error ''Command is required''), pm)"
  "\<not> falsy c \<Longrightarrow> \<not> connect_fails pm \<Longrightarrow> \<not> list_fails pm \<Longrightarrow> s \<notin> pname ` set (procs pm) \<Longrightarrow>
     post_api_servers_command pm s c = (Resp 404 (Error ''Server not found or not running''), pm)"
  by (auto simp: post_api_servers_command_def falsy_def find_None_iff_name[symmetric] split: option.splits)

lemma command_forwarded_then_throws:
  assumes "c \<noteq> []" "\<not> connect_fails pm" "\<not> list_fails pm" "\<not> send_fails pm"
    and "find (\<lambda>process. pname process = s) (procs pm) = Some p"
  shows "post_api_servers_command pm s (Some c) =
           (Uncaught ''TypeError: res.json is not a function'', pm\<lparr>sent := sent pm @ [(pm_id p, c)]\<rparr>)"
  using assms by (simp add: post_api_servers_command_def call_method_def)

lemma command_never_answers_success: "fst (post_api_servers_command pm s c) \<noteq> Resp 200 b"
  by (auto simp: post_api_servers_command_def call_method_def split: option.splits)

text \<open>
  Claim C10, run on the code: a non-empty command for a registered process. The
  command is handed to the process manager, and then the handler throws instead of
  answering: the request gets no success response.
\<close>

theorem command_success_is_not_reported:
  "post_api_servers_command (demo_pm2 [demo_proc]) ''s1'' (Some ''say hi'') =
     (Uncaught ''TypeError: res.json is not a function'',
      (demo_pm2 [demo_proc])\<lparr>sent := [(0, ''say hi'')]\<rparr>)"
  by code_simp

theorem command_success_is_not_reported_witness:
  "fst (post_api_servers_command (demo_pm2 [demo_proc]) ''s1'' (Some ''say hi'')) \<noteq>
     Resp 200 (Message ''Command sent successfully'')
   \<and> sent (snd (post_api_servers_command (demo_pm2 [demo_proc]) ''s1'' (Some ''say hi''))) =
     [(0, ''say hi'')]"
  using command_success_is_not_reported by simp

section \<open>The path check\<close>

text \<open>
  Claim C1, run on the code: server \<open>s1\<close>, relative path \<open>../s1-evil\<close>. The joined
  path \<open>/app/servers/s1-evil\<close> is outside the root \<open>/app/servers/s1\<close> and starts
  with it as a string, so the check lets it through: the listing route lists the
  sibling server's directory, and the move route moves a file of \<open>s1\<close> into it.
\<close>

theorem sibling_directory_passes_the_path_check:
  "path_join [server_root ''/app'' ''s1'', ''../s1-evil''] = ''/app/servers/s1-evil''
   \<and> get_api_servers_files demo_fs ''/app'' ''s1'' (Some ''../s1-evil'') =
       (Resp 200 (FileList ''s1'' ''../s1-evil''
          [\<lparr>fe_name = ''secret.txt'', fe_type = ''Arquivo'', fe_size = Some 3\<rparr>]), demo_fs)
   \<and> fst (post_api_servers_move demo_fs ''/app'' ''s1'' (Some ''a.txt'') (Some ''../s1-evil'') None) =
       Resp 200 (Message ''File moved successfully'')
   \<and> node_at (snd (post_api_servers_move demo_fs ''/app'' ''s1'' (Some ''a.txt'')
                     (Some ''../s1-evil'') None)) ''/app/servers/s1-evil/a.txt'' = Some (File ''hello'')"
  by code_simp

theorem sibling_directory_passes_the_path_check_witness:
  "fst (get_api_servers_files demo_fs ''/app'' ''s1'' (Some ''../s1-evil'')) \<noteq>
     Resp 400 (Error ''Invalid path'')
   \<and> fst (post_api_servers_move demo_fs ''/app'' ''s1'' (Some ''a.txt'') (Some ''../s1-evil'') None) \<noteq>
     Resp 400 (Error ''Invalid path'')"
  using sibling_directory_passes_the_path_check by simp

section \<open>Extracting an archive\<close>

text \<open>
  Claim C5. A file name that does not end in \<open>.zip\<close>, in any case of the letters, is
  never extracted: both extract routes answer with an error and leave the file system
  as it is. When the request gets as far as the archive (the path check passes, the
  server and the file exist), the error is 400 "File is not a ZIP archive".
\<close>

theorem extract_rejects_non_zip:
  "(\<not> endsWith (toLowerCase filename) ''.zip'' \<longrightarrow>
      snd (post_api_servers_extract unzip fs dirname serverName filename path_field) = fs
    \<and> fst (post_api_servers_extract unzip fs dirname serverName filename path_field)
         \<in> {Resp 400 (Error ''Invalid path''), Resp 404 (Error ''Server not found''),
            Resp 404 (Error ''File not found''), Resp 400 (Error ''File is not a ZIP archive'')}
    \<and> (prefix (server_root dirname serverName)
           (path_join [path_join [server_root dirname serverName, or_empty path_field], filename])
        \<and> existsSync fs (server_root dirname serverName)
        \<and> existsSync fs
             (path_join [path_join [server_root dirname serverName, or_empty path_field], filename])
        \<longrightarrow> post_api_servers_extract unzip fs dirname serverName filename path_field =
              (Resp 400 (Error ''File is not a ZIP archive''), fs)))
   \<and> (\<not> endsWith (toLowerCase filePath) ''.zip'' \<longrightarrow>
      snd (post_api_extract unzip fs (Some filePath) targetPath) = fs
    \<and> fst (post_api_extract unzip fs (Some filePath) targetPath)
         \<in> {Resp 400 (Error ''File path is required''), Resp 404 (Error ''File not found''),
            Resp 400 (Error ''File is not a ZIP archive'')}
    \<and> (existsSync fs filePath \<longrightarrow>
          post_api_extract unzip fs (Some filePath) targetPath =
            (Resp 400 (Error ''File is not a ZIP archive''), fs)))"
proof -
  have ex: "existsSync fs p \<Longrightarrow> p \<noteq> []" for p
    by (auto simp: existsSync_def node_at_def resolve_def)
  show ?thesis
    by (auto simp: post_api_servers_extract_def post_api_extract_def server_root_def Let_def dest: ex)
qed

theorem extract_rejects_non_zip_witness:
  "\<not> endsWith (toLowerCase ''a.txt'') ''.zip''
   \<and> prefix (server_root ''/app'' ''s1'')
        (path_join [path_join [server_root ''/app'' ''s1'', or_empty None], ''a.txt''])
   \<and> existsSync demo_fs (server_root ''/app'' ''s1'')
   \<and> existsSync demo_fs (path_join [path_join [server_root ''/app'' ''s1'', or_empty None], ''a.txt''])
   \<and> post_api_servers_extract (\<lambda>bytes. Some [ZipFile ''x'' bytes]) demo_fs ''/app'' ''s1'' ''a.txt'' None =
        (Resp 400 (Error ''File is not a ZIP archive''), demo_fs)
   \<and> \<not> endsWith (toLowerCase ''/app/servers/s1/a.txt'') ''.zip''
   \<and> existsSync demo_fs ''/app/servers/s1/a.txt''
   \<and> post_api_extract (\<lambda>bytes. Some [ZipFile ''x'' bytes]) demo_fs (Some ''/app/servers/s1/a.txt'') None =
        (Resp 400 (Error ''File is not a ZIP archive''), demo_fs)"
proof -
  have h1: "\<not> endsWith (toLowerCase ''a.txt'') ''.zip''" by code_simp
  have h2: "prefix (server_root ''/app'' ''s1'')
        (path_join [path_join [server_root ''/app'' ''s1'', or_empty None], ''a.txt''])" by code_simp
  have h3: "existsSync demo_fs (server_root ''/app'' ''s1'')" by code_simp
  have h4: "existsSync demo_fs (path_join [path_join [server_root ''/app'' ''s1'', or_empty None], ''a.txt''])"
    by code_simp
  have h5: "\<not> endsWith (toLowerCase ''/app/servers/s1/a.txt'') ''.zip''" by code_simp
  have h6: "existsSync demo_fs ''/app/servers/s1/a.txt''" by code_simp
  show ?thesis
    using h1 h2 h3 h4 h5 h6
      extract_rejects_non_zip [of "''a.txt''" "\<lambda>bytes. Some [ZipFile ''x'' bytes]" demo_fs "''/app''" "''s1''" None
         "''/app/servers/s1/a.txt''" None]
    by blast
qed

section \<open>Moving several files\<close>

lemma move_one_blocked:
  "blocked fs sourceDir destDir filename \<Longrightarrow>
     move_one fs sourceDir destDir filename = (blocked_result fs sourceDir destDir filename, fs)"
  by (auto simp: move_one_def blocked_def blocked_result_def)

lemma move_loop_names: "map mr_filename (fst (move_loop fs sourceDir destDir filenames)) = filenames"
proof (induction filenames arbitrary: fs)
  case Nil then show ?case by simp
next
  case (Cons f rest)
  have n: "mr_filename (fst (move_one fs sourceDir destDir f)) = f"
    by (simp add: move_one_def Let_def split: sum.splits)
  show ?case using Cons.IH n by (simp split: prod.splits) (metis fst_conv)
qed

lemma move_loop_all_blocked:
  "\<forall>f \<in> set filenames. blocked fs sourceDir destDir f \<Longrightarrow>
     move_loop fs sourceDir destDir filenames =
       (map (blocked_result fs sourceDir destDir) filenames, fs)"
  by (induction filenames) (auto simp: move_one_blocked)

lemma move_loop_append:
  "move_loop fs sourceDir destDir (pre @ post) =
     (fst (move_loop fs sourceDir destDir pre)
        @ fst (move_loop (snd (move_loop fs sourceDir destDir pre)) sourceDir destDir post),
      snd (move_loop (snd (move_loop fs sourceDir destDir pre)) sourceDir destDir post))"
  by (induction pre arbitrary: fs) (auto split: prod.splits)

lemma move_loop_length: "length (fst (move_loop fs sourceDir destDir filenames)) = length filenames"
  using move_loop_names[of fs sourceDir destDir filenames] by (metis length_map)

lemma move_loop_turn:
  assumes "blocked (snd (move_loop fs sourceDir destDir pre)) sourceDir destDir f"
  shows "fst (move_loop fs sourceDir destDir (pre @ f # post)) ! length pre =
           blocked_result (snd (move_loop fs sourceDir destDir pre)) sourceDir destDir f"
    and "snd (move_loop fs sourceDir destDir (pre @ [f])) = snd (move_loop fs sourceDir destDir pre)"
proof -
  let ?fs1 = "snd (move_loop fs sourceDir destDir pre)"
  have one: "move_one ?fs1 sourceDir destDir f = (blocked_result ?fs1 sourceDir destDir f, ?fs1)"
    using assms by (rule move_one_blocked)
  have len: "length (fst (move_loop fs sourceDir destDir pre)) = length pre"
    by (rule move_loop_length)
  show "fst (move_loop fs sourceDir destDir (pre @ f # post)) ! length pre =
           blocked_result ?fs1 sourceDir destDir f"
    using one len by (simp add: move_loop_append nth_append split: prod.splits)
  show "snd (move_loop fs sourceDir destDir (pre @ [f])) = ?fs1"
    using one by (simp add: move_loop_append)
qed

text \<open>
  Claim C9, as stated, fails on the code: in server \<open>s1\<close>, moving \<open>a.txt\<close> and
  \<open>zz\<close> into \<open>backup\<close>, where \<open>backup/a.txt\<close> exists and \<open>zz\<close> does not. The
  route answers 200, with the two failures inside the result list.
\<close>

theorem bulk_move_answers_200_on_conflict:
  "existsSync demo_fs ''/app/servers/s1/backup/a.txt''
   \<and> \<not> existsSync demo_fs ''/app/servers/s1/zz''
   \<and> post_api_servers_move_multiple demo_fs ''/app'' ''s1'' (Some [''a.txt'', ''zz''])
        (Some ''backup'') None =
       (Resp 200 (MoveResults ''Files move operation completed''
          [\<lparr>mr_filename = ''a.txt'', mr_status = ''error'',
            mr_message = ''File already exists in destination''\<rparr>,
           \<lparr>mr_filename = ''zz'', mr_status = ''error'',
            mr_message = ''Source file not found''\<rparr>]), demo_fs)"
  by code_simp

text \<open>
  Claim C9, amended. When the request passes the route's own checks (both directories
  are inside the server directory by the path check, the server and the destination
  directory exist), the bulk move answers 200 "Files move operation completed" with
  one result per file name, in the order of the request. A file whose source is
  missing or whose destination is taken when its turn comes is not moved: its result
  has status \<open>error\<close> with the message "Source file not found" or "File already
  exists in destination", and its step leaves the file system as it was. When every
  file of the request is blocked, the file system is unchanged.
\<close>

theorem bulk_move_reports_per_file:
  assumes "prefix (server_root dirname serverName)
             (path_join [server_root dirname serverName, or_empty currentPath])"
    and "prefix (server_root dirname serverName)
             (path_join [server_root dirname serverName, destinationPath])"
    and "existsSync fs (server_root dirname serverName)"
    and "existsSync fs (path_join [server_root dirname serverName, destinationPath])"
  shows "(\<exists>results fs'.
            post_api_servers_move_multiple fs dirname serverName (Some filenames)
              (Some destinationPath) currentPath =
              (Resp 200 (MoveResults ''Files move operation completed'' results), fs')
          \<and> map mr_filename results = filenames
          \<and> (\<forall>pre f post.
                filenames = pre @ f # post
                \<and> blocked (snd (move_loop fs
                       (path_join [server_root dirname serverName, or_empty currentPath])
                       (path_join [server_root dirname serverName, destinationPath]) pre))
                     (path_join [server_root dirname serverName, or_empty currentPath])
                     (path_join [server_root dirname serverName, destinationPath]) f
                \<longrightarrow> results ! length pre =
                      blocked_result (snd (move_loop fs
                          (path_join [server_root dirname serverName, or_empty currentPath])
                          (path_join [server_root dirname serverName, destinationPath]) pre))
                        (path_join [server_root dirname serverName, or_empty currentPath])
                        (path_join [server_root dirname serverName, destinationPath]) f
                    \<and> snd (move_loop fs
                          (path_join [server_root dirname serverName, or_empty currentPath])
                          (path_join [server_root dirname serverName, destinationPath]) (pre @ [f]))
                      = snd (move_loop fs
                          (path_join [server_root dirname serverName, or_empty currentPath])
                          (path_join [server_root dirname serverName, destinationPath]) pre)))
       \<and> ((\<forall>f \<in> set filenames.
              blocked fs (path_join [server_root dirname serverName, or_empty currentPath])
                (path_join [server_root dirname serverName, destinationPath]) f) \<longrightarrow>
            post_api_servers_move_multiple fs dirname serverName (Some filenames)
              (Some destinationPath) currentPath =
              (Resp 200 (MoveResults ''Files move operation completed''
                 (map (blocked_result fs
                         (path_join [server_root dirname serverName, or_empty currentPath])
                         (path_join [server_root dirname serverName, destinationPath])) filenames)),
               fs))"
proof -
  let ?sd = "path_join [server_root dirname serverName, or_empty currentPath]"
  let ?dd = "path_join [server_root dirname serverName, destinationPath]"
  have route: "post_api_servers_move_multiple fs dirname serverName (Some filenames)
              (Some destinationPath) currentPath =
              (Resp 200 (MoveResults ''Files move operation completed''
                 (fst (move_loop fs ?sd ?dd filenames))), snd (move_loop fs ?sd ?dd filenames))"
    using assms
    by (simp add: post_api_servers_move_multiple_def server_root_def Let_def split: prod.splits)
  have turn: "\<forall>pre f post. filenames = pre @ f # post
                \<and> blocked (snd (move_loop fs ?sd ?dd pre)) ?sd ?dd f
                \<longrightarrow> fst (move_loop fs ?sd ?dd filenames) ! length pre =
                      blocked_result (snd (move_loop fs ?sd ?dd pre)) ?sd ?dd f
                    \<and> snd (move_loop fs ?sd ?dd (pre @ [f])) = snd (move_loop fs ?sd ?dd pre)"
    using move_loop_turn by blast
  have all: "(\<forall>f \<in> set filenames. blocked fs ?sd ?dd f) \<longrightarrow>
      post_api_servers_move_multiple fs dirname serverName (Some filenames)
              (Some destinationPath) currentPath =
              (Resp 200 (MoveResults ''Files move operation completed''
                 (map (blocked_result fs ?sd ?dd) filenames)), fs)"
    using route by (simp add: move_loop_all_blocked)
  show ?thesis
    using route turn all move_loop_names[of fs ?sd ?dd filenames] by blast
qed

theorem bulk_move_reports_per_file_witness:
  "prefix (server_root ''/app'' ''s1'') (path_join [server_root ''/app'' ''s1'', or_empty None])
   \<and> prefix (server_root ''/app'' ''s1'') (path_join [server_root ''/app'' ''s1'', ''backup''])
   \<and> existsSync demo_fs (server_root ''/app'' ''s1'')
   \<and> existsSync demo_fs (path_join [server_root ''/app'' ''s1'', ''backup''])
   \<and> blocked demo_fs (path_join [server_root ''/app'' ''s1'', or_empty None])
         (path_join [server_root ''/app'' ''s1'', ''backup'']) ''a.txt''
   \<and> blocked demo_fs (path_join [server_root ''/app'' ''s1'', or_empty None])
         (path_join [server_root ''/app'' ''s1'', ''backup'']) ''zz''
   \<and> post_api_servers_move_multiple demo_fs ''/app'' ''s1'' (Some [''a.txt'', ''zz''])
        (Some ''backup'') None =
       (Resp 200 (MoveResults ''Files move operation completed''
          (map (blocked_result demo_fs (path_join [server_root ''/app'' ''s1'', or_empty None])
                  (path_join [server_root ''/app'' ''s1'', ''backup''])) [''a.txt'', ''zz''])),
        demo_fs)"
proof -
  have h1: "prefix (server_root ''/app'' ''s1'') (path_join [server_root ''/app'' ''s1'', or_empty None])"
    by code_simp
  have h2: "prefix (server_root ''/app'' ''s1'') (path_join [server_root ''/app'' ''s1'', ''backup''])"
    by code_simp
  have h3: "existsSync demo_fs (server_root ''/app'' ''s1'')" by code_simp
  have h4: "existsSync demo_fs (path_join [server_root ''/app'' ''s1'', ''backup''])" by code_simp
  have h5: "blocked demo_fs (path_join [server_root ''/app'' ''s1'', or_empty None])
         (path_join [server_root ''/app'' ''s1'', ''backup'']) ''a.txt''" by code_simp
  have h6: "blocked demo_fs (path_join [server_root ''/app'' ''s1'', or_empty None])
         (path_join [server_root ''/app'' ''s1'', ''backup'']) ''zz''" by code_simp
  have all: "\<forall>f \<in> set [''a.txt'', ''zz''].
         blocked demo_fs (path_join [server_root ''/app'' ''s1'', or_empty None])
           (path_join [server_root ''/app'' ''s1'', ''backup'']) f"
    using h5 h6 by simp
  show ?thesis
    using h1 h2 h3 h4 h5 h6 all
      bulk_move_reports_per_file [OF h1 h2 h3 h4, of "[''a.txt'', ''zz'']"]
    by blast
qed

section \<open>Move, copy and rename onto an existing destination\<close>

lemma destination_directory_exists:
  assumes "wf_fs fs" "is_absolute dirname" "plain filename"
    and "existsSync fs (entry_path dirname serverName destinationPath filename)"
  shows "existsSync fs (path_join [server_root dirname serverName, destinationPath])"
  using parent_of_existing_entry[OF assms(1) server_root_absolute[OF assms(2)] assms(3)] assms(4)
  by (simp add: entry_path_def)

text \<open>
  Claim C4. For a request that passes the path check on an existing server: when the
  source is absent, move, copy and rename answer 404 "Source file not found"; when
  the source exists and the destination path exists already, they answer 400 (the
  destination exists) instead of overwriting. In both cases the file system after the
  call is the file system before it. The source is looked at first, so a request whose
  source is absent gets the 404 whether or not the destination exists. For move and
  copy the name is a single path segment and the file system is a tree, so that an
  existing destination lies in an existing destination directory.
\<close>

theorem existing_destination_is_refused:
  assumes "wf_fs fs" and "is_absolute dirname"
    and "existsSync fs (server_root dirname serverName)"
  shows "(prefix (server_root dirname serverName)
            (entry_path dirname serverName (or_empty currentPath) filename)
          \<and> prefix (server_root dirname serverName)
            (entry_path dirname serverName destinationPath filename) \<longrightarrow>
            (\<not> existsSync fs (entry_path dirname serverName (or_empty currentPath) filename) \<longrightarrow>
               post_api_servers_move fs dirname serverName (Some filename) (Some destinationPath)
                 currentPath = (Resp 404 (Error ''Source file not found''), fs)
             \<and> post_api_servers_copy depth fs dirname serverName (Some filename)
                 (Some destinationPath) currentPath =
                 (Resp 404 (Error ''Source file not found''), fs))
          \<and> (plain filename
              \<and> existsSync fs (entry_path dirname serverName (or_empty currentPath) filename)
              \<and> existsSync fs (entry_path dirname serverName destinationPath filename) \<longrightarrow>
               post_api_servers_move fs dirname serverName (Some filename) (Some destinationPath)
                 currentPath = (Resp 400 (Error ''File already exists in destination''), fs)
             \<and> post_api_servers_copy depth fs dirname serverName (Some filename)
                 (Some destinationPath) currentPath =
                 (Resp 400 (Error ''File already exists in destination''), fs)))
       \<and> (prefix (server_root dirname serverName)
            (entry_path dirname serverName (or_empty currentPath) oldName)
          \<and> prefix (server_root dirname serverName)
            (entry_path dirname serverName (or_empty currentPath) newName) \<longrightarrow>
            (\<not> existsSync fs (entry_path dirname serverName (or_empty currentPath) oldName) \<longrightarrow>
               post_api_servers_rename fs dirname serverName (Some oldName) (Some newName)
                 currentPath = (Resp 404 (Error ''Source file not found''), fs))
          \<and> (existsSync fs (entry_path dirname serverName (or_empty currentPath) oldName)
              \<and> existsSync fs (entry_path dirname serverName (or_empty currentPath) newName) \<longrightarrow>
               post_api_servers_rename fs dirname serverName (Some oldName) (Some newName)
                 currentPath =
                 (Resp 400 (Error ''A file or directory with that name already exists''), fs)))"
proof -
  have dd: "plain filename \<Longrightarrow>
            existsSync fs (entry_path dirname serverName destinationPath filename) \<Longrightarrow>
            existsSync fs (path_join [server_root dirname serverName, destinationPath])"
    using destination_directory_exists[OF assms(1,2)] by blast
  have mv: "prefix (server_root dirname serverName)
            (entry_path dirname serverName (or_empty currentPath) filename)
          \<and> prefix (server_root dirname serverName)
            (entry_path dirname serverName destinationPath filename) \<longrightarrow>
            (\<not> existsSync fs (entry_path dirname serverName (or_empty currentPath) filename) \<longrightarrow>
               post_api_servers_move fs dirname serverName (Some filename) (Some destinationPath)
                 currentPath = (Resp 404 (Error ''Source file not found''), fs)
             \<and> post_api_servers_copy depth fs dirname serverName (Some filename)
                 (Some destinationPath) currentPath =
                 (Resp 404 (Error ''Source file not found''), fs))"
    using assms(3)
    by (simp add: post_api_servers_move_def post_api_servers_copy_def entry_path_def
        server_root_def Let_def)
  have cf: "prefix (server_root dirname serverName)
            (entry_path dirname serverName (or_empty currentPath) filename)
          \<and> prefix (server_root dirname serverName)
            (entry_path dirname serverName destinationPath filename) \<longrightarrow>
          (plain filename
              \<and> existsSync fs (entry_path dirname serverName (or_empty currentPath) filename)
              \<and> existsSync fs (entry_path dirname serverName destinationPath filename) \<longrightarrow>
               post_api_servers_move fs dirname serverName (Some filename) (Some destinationPath)
                 currentPath = (Resp 400 (Error ''File already exists in destination''), fs)
             \<and> post_api_servers_copy depth fs dirname serverName (Some filename)
                 (Some destinationPath) currentPath =
                 (Resp 400 (Error ''File already exists in destination''), fs))"
    using assms(3) dd
    by (simp add: post_api_servers_move_def post_api_servers_copy_def entry_path_def
        server_root_def Let_def)
  have rn: "prefix (server_root dirname serverName)
            (entry_path dirname serverName (or_empty currentPath) oldName)
          \<and> prefix (server_root dirname serverName)
            (entry_path dirname serverName (or_empty currentPath) newName) \<longrightarrow>
            (\<not> existsSync fs (entry_path dirname serverName (or_empty currentPath) oldName) \<longrightarrow>
               post_api_servers_rename fs dirname serverName (Some oldName) (Some newName)
                 currentPath = (Resp 404 (Error ''Source file not found''), fs))
          \<and> (existsSync fs (entry_path dirname serverName (or_empty currentPath) oldName)
              \<and> existsSync fs (entry_path dirname serverName (or_empty currentPath) newName) \<longrightarrow>
               post_api_servers_rename fs dirname serverName (Some oldName) (Some newName)
                 currentPath =
                 (Resp 400 (Error ''A file or directory with that name already exists''), fs))"
    using assms(3)
    by (simp add: post_api_servers_rename_def entry_path_def server_root_def Let_def)
  show ?thesis using mv cf rn by blast
qed

theorem existing_destination_is_refused_witness:
  "wf_fs demo_fs \<and> is_absolute ''/app'' \<and> existsSync demo_fs (server_root ''/app'' ''s1'')
   \<and> prefix (server_root ''/app'' ''s1'') (entry_path ''/app'' ''s1'' (or_empty None) ''a.txt'')
   \<and> prefix (server_root ''/app'' ''s1'') (entry_path ''/app'' ''s1'' ''backup'' ''a.txt'')
   \<and> plain ''a.txt''
   \<and> existsSync demo_fs (entry_path ''/app'' ''s1'' (or_empty None) ''a.txt'')
   \<and> existsSync demo_fs (entry_path ''/app'' ''s1'' ''backup'' ''a.txt'')
   \<and> post_api_servers_move demo_fs ''/app'' ''s1'' (Some ''a.txt'') (Some ''backup'') None =
        (Resp 400 (Error ''File already exists in destination''), demo_fs)
   \<and> post_api_servers_copy 3 demo_fs ''/app'' ''s1'' (Some ''a.txt'') (Some ''backup'') None =
        (Resp 400 (Error ''File already exists in destination''), demo_fs)
   \<and> prefix (server_root ''/app'' ''s1'') (entry_path ''/app'' ''s1'' (or_empty None) ''zz'')
   \<and> prefix (server_root ''/app'' ''s1'') (entry_path ''/app'' ''s1'' ''backup'' ''zz'')
   \<and> \<not> existsSync demo_fs (entry_path ''/app'' ''s1'' (or_empty None) ''zz'')
   \<and> post_api_servers_move demo_fs ''/app'' ''s1'' (Some ''zz'') (Some ''backup'') None =
        (Resp 404 (Error ''Source file not found''), demo_fs)
   \<and> post_api_servers_copy 3 demo_fs ''/app'' ''s1'' (Some ''zz'') (Some ''backup'') None =
        (Resp 404 (Error ''Source file not found''), demo_fs)
   \<and> prefix (server_root ''/app'' ''s1'')
        (entry_path ''/app'' ''s1'' (or_empty None) ''server.properties'')
   \<and> existsSync demo_fs (entry_path ''/app'' ''s1'' (or_empty None) ''server.properties'')
   \<and> post_api_servers_rename demo_fs ''/app'' ''s1'' (Some ''a.txt'') (Some ''server.properties'')
        None = (Resp 400 (Error ''A file or directory with that name already exists''), demo_fs)
   \<and> post_api_servers_rename demo_fs ''/app'' ''s1'' (Some ''zz'') (Some ''a.txt'') None =
        (Resp 404 (Error ''Source file not found''), demo_fs)"
proof -
  have w: "wf_fs demo_fs" by code_simp
  have a: "is_absolute ''/app''" by code_simp
  have r: "existsSync demo_fs (server_root ''/app'' ''s1'')" by code_simp
  have p1: "prefix (server_root ''/app'' ''s1'') (entry_path ''/app'' ''s1'' (or_empty None) ''a.txt'')"
    by code_simp
  have p2: "prefix (server_root ''/app'' ''s1'') (entry_path ''/app'' ''s1'' ''backup'' ''a.txt'')"
    by code_simp
  have pl: "plain ''a.txt''" by code_simp
  have e1: "existsSync demo_fs (entry_path ''/app'' ''s1'' (or_empty None) ''a.txt'')" by code_simp
  have e2: "existsSync demo_fs (entry_path ''/app'' ''s1'' ''backup'' ''a.txt'')" by code_simp
  have p3: "prefix (server_root ''/app'' ''s1'') (entry_path ''/app'' ''s1'' (or_empty None) ''zz'')"
    by code_simp
  have p4: "prefix (server_root ''/app'' ''s1'') (entry_path ''/app'' ''s1'' ''backup'' ''zz'')"
    by code_simp
  have n1: "\<not> existsSync demo_fs (entry_path ''/app'' ''s1'' (or_empty None) ''zz'')" by code_simp
  have p5: "prefix (server_root ''/app'' ''s1'')
        (entry_path ''/app'' ''s1'' (or_empty None) ''server.properties'')" by code_simp
  have e3: "existsSync demo_fs (entry_path ''/app'' ''s1'' (or_empty None) ''server.properties'')"
    by code_simp
  show ?thesis
    using w a r p1 p2 pl e1 e2 p3 p4 n1 p5 e3
      existing_destination_is_refused [OF w a r, of None "''a.txt''" "''backup''" 3
        "''a.txt''" "''server.properties''"]
      existing_destination_is_refused [OF w a r, of None "''zz''" "''backup''" 3
        "''zz''" "''a.txt''"]
    by blast
qed

section \<open>The console\<close>

lemma plain_literals [simp]:
  "plain ''servers''" "plain ''logs''" "plain ''server.log''" "plain ''plugins''" "plain ''world''"
  "plain ''server.properties''" "plain ''config.yml''" "plain ''bukkit.yml''"
  by (simp_all add: plain_def)

lemma plain_list_simps [simp]:
  "plain_list []" "plain_list (x # xs) = (plain x \<and> plain_list xs)"
  "plain_list (xs @ ys) = (plain_list xs \<and> plain_list ys)"
  by (simp_all add: plain_list_def)

lemma path_join_abs1: "plain_list ds \<Longrightarrow> plain a \<Longrightarrow> path_join [abs_path ds, a] = abs_path (ds @ [a])"
  using path_join_abs[of ds "[a]"] by simp

lemma path_join_abs2:
  "plain_list ds \<Longrightarrow> plain a \<Longrightarrow> plain b \<Longrightarrow> path_join [abs_path ds, a, b] = abs_path (ds @ [a, b])"
  using path_join_abs[of ds "[a, b]"] by simp

lemma server_root_abs:
  "plain_list ds \<Longrightarrow> plain serverName \<Longrightarrow>
     server_root (abs_path ds) serverName = abs_path (ds @ [''servers'', serverName])"
  by (simp add: server_root_def path_join_abs1)

lemma tl_drop_1: "tl xs = drop 1 xs"
  by (cases xs) simp_all

lemma on_line_step:
  "length acc \<le> n \<Longrightarrow> on_line n acc l = drop (Suc (length acc) - n) (acc @ [l])"
  by (cases "length acc < n") (simp_all add: on_line_def tl_drop_1)

lemma on_line_tail:
  "length acc \<le> n \<Longrightarrow>
     foldl (on_line n) acc ls = drop (length (acc @ ls) - n) (acc @ ls)"
proof (induction ls arbitrary: acc)
  case Nil then show ?case by simp
next
  case (Cons l ls)
  define k where "k = Suc (length acc) - n"
  define A where "A = acc @ [l]"
  define m where "m = length (drop k A @ ls) - n"
  have st: "on_line n acc l = drop k A"
    unfolding k_def A_def using Cons.prems by (rule on_line_step)
  have le: "length (drop k A) \<le> n" by (simp add: k_def A_def)
  have k0: "k - length A = 0" by (simp add: k_def A_def)
  have "drop k (A @ ls) = drop k A @ drop (k - length A) ls" by (rule drop_append)
  then have e: "drop k A @ ls = drop k (A @ ls)" by (simp only: k0 drop_0)
  have mk: "m + k = length (acc @ l # ls) - n"
    using Cons.prems by (cases "length acc < n") (auto simp: m_def k_def A_def)
  have "foldl (on_line n) acc (l # ls) = foldl (on_line n) (drop k A) ls"
    using st by simp
  also have "\<dots> = drop m (drop k A @ ls)"
    unfolding m_def using Cons.IH[OF le] .
  also have "\<dots> = drop m (drop k (A @ ls))" by (simp only: e)
  also have "\<dots> = drop (m + k) (A @ ls)" by (rule drop_drop)
  also have "\<dots> = drop (length (acc @ l # ls) - n) (acc @ l # ls)"
    by (simp only: mk) (simp add: A_def)
  finally show ?case .
qed

lemma readLastLines_tail:
  "readFile fs file = Inr content \<Longrightarrow>
     readLastLines fs file numLines =
       Inr (drop (length (split_lines [] content) - numLines) (split_lines [] content))"
  using on_line_tail[of "[]" numLines "split_lines [] content"] by (simp add: readLastLines_def)

lemma console_eval:
  assumes w: "wf_fs fs" and ds: "plain_list ds" and n: "plain serverName"
    and sp: "lookup fs (ds @ [''servers'', serverName]) = Some Directory"
    and lg: "\<And>c. lookup fs (ds @ [''servers'', serverName, ''logs'']) \<noteq> Some (File c)"
  shows "get_api_servers_console fs (abs_path ds) serverName =
     (let lp = ds @ [''servers'', serverName, ''logs''];
          lf = ds @ [''servers'', serverName, ''logs'', ''server.log''];
          fs1 = (if lookup fs lp = None then put fs lp Directory else fs);
          fs2 = (if lookup fs lf = None then put fs1 lf (File []) else fs1)
      in (Resp 200 (Logs (case lookup fs lf of
                            Some (File c) \<Rightarrow>
                              drop (length (split_lines [] c) - 100) (split_lines [] c)
                          | _ \<Rightarrow> [])), fs2))"
proof -
  let ?sp = "ds @ [''servers'', serverName]"
  let ?lp = "ds @ [''servers'', serverName, ''logs'']"
  let ?lf = "ds @ [''servers'', serverName, ''logs'', ''server.log'']"
  have psp: "plain_list ?sp" and plp: "plain_list ?lp" and plf: "plain_list ?lf"
    using ds n by simp_all
  have root: "path_join [path_join [abs_path ds, ''servers''], serverName] = abs_path ?sp"
    using ds n by (simp add: path_join_abs1)
  have logsDir: "path_join [abs_path ?sp, ''logs''] = abs_path ?lp"
    using path_join_abs1[OF psp, of "''logs''"] by simp
  have logFile: "path_join [abs_path ?sp, ''logs'', ''server.log''] = abs_path ?lf"
    using path_join_abs2[OF psp, of "''logs''" "''server.log''"] by simp
  have ex_sp: "existsSync fs (abs_path ?sp)" using sp by (simp add: existsSync_abs[OF w psp])
  define fs1 where "fs1 = (if lookup fs ?lp = None then put fs ?lp Directory else fs)"
  have lp_cases: "lookup fs ?lp = None \<or> lookup fs ?lp = Some Directory"
    using lg by (cases "lookup fs ?lp") (auto, metis fnode.exhaust)
  have bl: "butlast ?lp = ?sp" by (simp add: butlast_append)
  have step1: "(if \<not> existsSync fs (abs_path ?lp) then mkdir_recursive fs (abs_path ?lp) else Inr fs)
                 = Inr fs1"
  proof (cases "lookup fs ?lp = None")
    case True
    have "mkdir_recursive fs (abs_path ?lp) = ensure_dir fs ?lp True"
      by (rule mkdir_abs[OF w plp]) (simp_all only: bl sp, simp)
    then show ?thesis using True by (simp add: existsSync_abs[OF w plp] fs1_def ensure_dir_def)
  next
    case False
    then show ?thesis by (auto simp: existsSync_abs[OF w plp] fs1_def)
  qed
  have w1: "wf_fs fs1"
  proof (cases "lookup fs ?lp = None")
    case True
    have "wf_fs (put fs ?lp Directory)"
      by (rule wf_put[OF w _ plp]) (simp_all only: bl sp, simp_all)
    then show ?thesis using True by (simp add: fs1_def)
  next
    case False
    then show ?thesis using w by (auto simp: fs1_def)
  qed
  have lp1: "lookup fs1 ?lp = Some Directory"
    using lp_cases by (auto simp: fs1_def lookup_put)
  have lf1: "lookup fs1 ?lf = lookup fs ?lf" by (simp add: fs1_def lookup_put)
  define fs2 where "fs2 = (if lookup fs ?lf = None then put fs1 ?lf (File []) else fs1)"
  have blf: "butlast ?lf = ?lp" by (simp add: butlast_append)
  have step2: "(if \<not> existsSync fs1 (abs_path ?lf) then writeFile fs1 (abs_path ?lf) [] else Inr fs1)
                 = Inr fs2"
  proof (cases "lookup fs ?lf = None")
    case True
    have "writeFile fs1 (abs_path ?lf) [] =
            (if lookup fs1 ?lf = Some Directory then Inl EISDIR else Inr (put fs1 ?lf (File [])))"
      by (rule writeFile_abs[OF w1 plf]) (simp_all only: blf lp1, simp)
    then show ?thesis using True lf1 by (simp add: existsSync_abs[OF w1 plf] fs2_def)
  next
    case False
    then show ?thesis using lf1 by (auto simp: existsSync_abs[OF w1 plf] fs2_def)
  qed
  have w2: "wf_fs fs2"
  proof (cases "lookup fs ?lf = None")
    case True
    have "wf_fs (put fs1 ?lf (File []))"
      by (rule wf_put[OF w1 _ plf]) (simp_all only: blf lp1, simp_all add: lf1 True)
    then show ?thesis using True by (simp add: fs2_def)
  next
    case False
    then show ?thesis using w1 by (auto simp: fs2_def)
  qed
  have lf2: "lookup fs2 ?lf = (case lookup fs ?lf of None \<Rightarrow> Some (File []) | Some x \<Rightarrow> Some x)"
    using lf1 by (auto simp: fs2_def lookup_put split: option.splits)
  have rd: "readLastLines fs2 (abs_path ?lf) 100 =
     (case lookup fs ?lf of
        None \<Rightarrow> Inr []
      | Some (File c) \<Rightarrow> Inr (drop (length (split_lines [] c) - 100) (split_lines [] c))
      | Some Directory \<Rightarrow> Inl EISDIR)"
  proof (cases "lookup fs ?lf")
    case None
    then have "lookup fs2 ?lf = Some (File [])" using lf2 by simp
    then have "readFile fs2 (abs_path ?lf) = Inr []"
      using readFile_abs[OF w2 plf] by simp
    then show ?thesis using None readLastLines_tail[of fs2 "abs_path ?lf" "[]" 100] by simp
  next
    case (Some x)
    then have l: "lookup fs2 ?lf = Some x" using lf2 by simp
    show ?thesis
    proof (cases x)
      case (File c)
      then have "readFile fs2 (abs_path ?lf) = Inr c"
        using readFile_abs[OF w2 plf l] by simp
      then show ?thesis using Some File readLastLines_tail[of fs2 "abs_path ?lf" c 100] by simp
    next
      case Directory
      then have "readFile fs2 (abs_path ?lf) = Inl EISDIR"
        using readFile_abs[OF w2 plf l] by simp
      then show ?thesis using Some Directory by (simp add: readLastLines_def)
    qed
  qed
  have "get_api_servers_console fs (abs_path ds) serverName =
          (Resp 200 (Logs (case lookup fs ?lf of
                            Some (File c) \<Rightarrow>
                              drop (length (split_lines [] c) - 100) (split_lines [] c)
                          | _ \<Rightarrow> [])), fs2)"
    unfolding get_api_servers_console_def Let_def root logsDir logFile
    using ex_sp step1 step2 rd
    by (simp split: option.splits fnode.splits)
  then show ?thesis by (simp add: Let_def fs1_def fs2_def)
qed

text \<open>
  Claim C8. For an existing server (its root is a directory of a tree-shaped file
  system, the application directory and the server name being plain) whose \<open>logs\<close>
  name is not taken by a regular file, the console route answers 200 with the log
  lines; afterwards the log directory and the log file exist, and nothing else has
  changed. With no log file before the call the lines are empty and the file is
  created empty; with a log file they are the last 100 lines of the file, in file
  order, and the file system is unchanged; when reading the log fails the lines are
  empty. \<open>readLastLines\<close> with any line count returns the last that many lines.
\<close>

theorem console_returns_last_lines:
  assumes "wf_fs fs" and "plain_list ds" and "plain serverName"
    and "node_at fs (server_root (abs_path ds) serverName) = Some Directory"
    and "node_at fs (path_join [server_root (abs_path ds) serverName, ''logs'']) = None
         \<or> node_at fs (path_join [server_root (abs_path ds) serverName, ''logs'']) = Some Directory"
  shows "\<exists>lines fs'.
           get_api_servers_console fs (abs_path ds) serverName = (Resp 200 (Logs lines), fs')
         \<and> node_at fs' (path_join [server_root (abs_path ds) serverName, ''logs'']) = Some Directory
         \<and> existsSync fs'
               (path_join [server_root (abs_path ds) serverName, ''logs'', ''server.log''])
         \<and> (\<forall>q. q \<noteq> ds @ [''servers'', serverName, ''logs'']
                \<and> q \<noteq> ds @ [''servers'', serverName, ''logs'', ''server.log'']
                \<longrightarrow> lookup fs' q = lookup fs q)
         \<and> (\<not> existsSync fs
                 (path_join [server_root (abs_path ds) serverName, ''logs'', ''server.log'']) \<longrightarrow>
               lines = []
             \<and> node_at fs'
                 (path_join [server_root (abs_path ds) serverName, ''logs'', ''server.log''])
                 = Some (File []))
         \<and> (\<forall>c. node_at fs
                   (path_join [server_root (abs_path ds) serverName, ''logs'', ''server.log''])
                   = Some (File c) \<longrightarrow>
                  lines = drop (length (split_lines [] c) - 100) (split_lines [] c) \<and> fs' = fs)
         \<and> (\<forall>e. readFile fs'
                   (path_join [server_root (abs_path ds) serverName, ''logs'', ''server.log''])
                   = Inl e \<longrightarrow> lines = [])
         \<and> (\<forall>numLines c.
                readFile fs'
                  (path_join [server_root (abs_path ds) serverName, ''logs'', ''server.log''])
                  = Inr c \<longrightarrow>
                readLastLines fs'
                  (path_join [server_root (abs_path ds) serverName, ''logs'', ''server.log''])
                  numLines
                  = Inr (drop (length (split_lines [] c) - numLines) (split_lines [] c)))"
proof -
  let ?sp = "ds @ [''servers'', serverName]"
  let ?lp = "ds @ [''servers'', serverName, ''logs'']"
  let ?lf = "ds @ [''servers'', serverName, ''logs'', ''server.log'']"
  note w = assms(1)
  have psp: "plain_list ?sp" and plp: "plain_list ?lp" and plf: "plain_list ?lf"
    using assms(2,3) by simp_all
  have root: "server_root (abs_path ds) serverName = abs_path ?sp"
    using assms(2,3) by (rule server_root_abs)
  have logsDir: "path_join [abs_path ?sp, ''logs''] = abs_path ?lp"
    using path_join_abs1[OF psp, of "''logs''"] by simp
  have logFile: "path_join [abs_path ?sp, ''logs'', ''server.log''] = abs_path ?lf"
    using path_join_abs2[OF psp, of "''logs''" "''server.log''"] by simp
  have sp: "lookup fs ?sp = Some Directory"
    using assms(4) by (simp add: root node_at_abs[OF w psp])
  have lp: "lookup fs ?lp = None \<or> lookup fs ?lp = Some Directory"
    using assms(5) by (simp add: root logsDir node_at_abs[OF w plp])
  then have lg: "\<And>c. lookup fs ?lp \<noteq> Some (File c)" by auto
  define fs1 where "fs1 = (if lookup fs ?lp = None then put fs ?lp Directory else fs)"
  define fs2 where "fs2 = (if lookup fs ?lf = None then put fs1 ?lf (File []) else fs1)"
  define lines where "lines = (case lookup fs ?lf of
                            Some (File c) \<Rightarrow>
                              drop (length (split_lines [] c) - 100) (split_lines [] c)
                          | _ \<Rightarrow> [])"
  have ev: "get_api_servers_console fs (abs_path ds) serverName = (Resp 200 (Logs lines), fs2)"
    using console_eval[OF w assms(2,3) sp lg] by (simp add: Let_def fs1_def fs2_def lines_def)
  have bl: "butlast ?lp = ?sp" and blf: "butlast ?lf = ?lp" by (simp_all add: butlast_append)
  have w1: "wf_fs fs1"
  proof (cases "lookup fs ?lp = None")
    case True
    have "wf_fs (put fs ?lp Directory)"
      by (rule wf_put[OF w _ plp]) (simp_all only: bl sp, simp_all)
    then show ?thesis using True by (simp add: fs1_def)
  next
    case False
    then show ?thesis using w by (auto simp: fs1_def)
  qed
  have lp1: "lookup fs1 ?lp = Some Directory" using lp by (auto simp: fs1_def lookup_put)
  have lf1: "lookup fs1 ?lf = lookup fs ?lf" by (simp add: fs1_def lookup_put)
  have w2: "wf_fs fs2"
  proof (cases "lookup fs ?lf = None")
    case True
    have "wf_fs (put fs1 ?lf (File []))"
      by (rule wf_put[OF w1 _ plf]) (simp_all only: blf lp1, simp_all add: lf1 True)
    then show ?thesis using True by (simp add: fs2_def)
  next
    case False
    then show ?thesis using w1 by (auto simp: fs2_def)
  qed
  have lp2: "lookup fs2 ?lp = Some Directory" using lp1 by (auto simp: fs2_def lookup_put)
  have lf2: "lookup fs2 ?lf = (case lookup fs ?lf of None \<Rightarrow> Some (File []) | Some x \<Rightarrow> Some x)"
    using lf1 by (auto simp: fs2_def lookup_put split: option.splits)
  have same: "lookup fs ?lf \<noteq> None \<Longrightarrow> fs2 = fs"
  proof -
    assume a: "lookup fs ?lf \<noteq> None"
    then obtain x where "lookup fs ?lf = Some x" by auto
    then have "lookup fs ?lp = Some Directory" using wf_parent[OF w, of ?lf x] blf by simp
    then show "fs2 = fs" using a by (auto simp: fs2_def fs1_def)
  qed
  have c1: "node_at fs2 (path_join [server_root (abs_path ds) serverName, ''logs'']) = Some Directory"
    using lp2 by (simp add: root logsDir node_at_abs[OF w2 plp])
  have c2: "existsSync fs2
               (path_join [server_root (abs_path ds) serverName, ''logs'', ''server.log''])"
    using lf2 by (simp add: root logFile existsSync_abs[OF w2 plf] split: option.splits)
  have c3: "\<forall>q. q \<noteq> ?lp \<and> q \<noteq> ?lf \<longrightarrow> lookup fs2 q = lookup fs q"
    by (auto simp: fs2_def fs1_def lookup_put)
  have c4: "\<not> existsSync fs
                 (path_join [server_root (abs_path ds) serverName, ''logs'', ''server.log'']) \<longrightarrow>
               lines = []
             \<and> node_at fs2
                 (path_join [server_root (abs_path ds) serverName, ''logs'', ''server.log''])
                 = Some (File [])"
    using lf2
    by (auto simp: root logFile existsSync_abs[OF w plf] node_at_abs[OF w2 plf] lines_def)
  have c5: "\<forall>c. node_at fs
                   (path_join [server_root (abs_path ds) serverName, ''logs'', ''server.log''])
                   = Some (File c) \<longrightarrow>
                  lines = drop (length (split_lines [] c) - 100) (split_lines [] c) \<and> fs2 = fs"
    using same by (auto simp: root logFile node_at_abs[OF w plf] lines_def)
  have c6: "\<forall>e. readFile fs2
                   (path_join [server_root (abs_path ds) serverName, ''logs'', ''server.log''])
                   = Inl e \<longrightarrow> lines = []"
  proof (intro allI impI)
    fix e
    assume r: "readFile fs2
                   (path_join [server_root (abs_path ds) serverName, ''logs'', ''server.log''])
                   = Inl e"
    show "lines = []"
    proof (cases "lookup fs ?lf")
      case None
      then show ?thesis by (simp add: lines_def)
    next
      case (Some x)
      then have l: "lookup fs2 ?lf = Some x" using lf2 by simp
      show ?thesis
      proof (cases x)
        case (File c)
        then have "readFile fs2 (abs_path ?lf) = Inr c" using readFile_abs[OF w2 plf l] by simp
        then show ?thesis using r by (simp add: root logFile)
      next
        case Directory
        then show ?thesis using Some by (simp add: lines_def)
      qed
    qed
  qed
  have c7: "\<forall>numLines c.
                readFile fs2
                  (path_join [server_root (abs_path ds) serverName, ''logs'', ''server.log''])
                  = Inr c \<longrightarrow>
                readLastLines fs2
                  (path_join [server_root (abs_path ds) serverName, ''logs'', ''server.log''])
                  numLines
                  = Inr (drop (length (split_lines [] c) - numLines) (split_lines [] c))"
    using readLastLines_tail by blast
  show ?thesis
    by (rule exI[of _ lines], rule exI[of _ fs2]) (intro conjI ev c1 c2 c3 c4 c5 c6 c7)
qed

theorem console_returns_last_lines_witness:
  "wf_fs demo_fs \<and> plain_list [''app''] \<and> plain ''s1'' \<and> plain ''s2''
   \<and> node_at demo_fs (server_root (abs_path [''app'']) ''s1'') = Some Directory
   \<and> node_at demo_fs (path_join [server_root (abs_path [''app'']) ''s1'', ''logs'']) = None
   \<and> \<not> existsSync demo_fs
         (path_join [server_root (abs_path [''app'']) ''s1'', ''logs'', ''server.log''])
   \<and> (\<exists>fs'. get_api_servers_console demo_fs (abs_path [''app'']) ''s1'' =
                (Resp 200 (Logs []), fs')
            \<and> node_at fs'
                (path_join [server_root (abs_path [''app'']) ''s1'', ''logs'', ''server.log''])
                = Some (File []))
   \<and> node_at demo_fs (server_root (abs_path [''app'']) ''s2'') = Some Directory
   \<and> node_at demo_fs (path_join [server_root (abs_path [''app'']) ''s2'', ''logs''])
        = Some Directory
   \<and> node_at demo_fs
        (path_join [server_root (abs_path [''app'']) ''s2'', ''logs'', ''server.log''])
        = Some (File (''starting'' @ [CHR 0x0A] @ ''done'' @ [CHR 0x0A]))
   \<and> get_api_servers_console demo_fs (abs_path [''app'']) ''s2'' =
        (Resp 200 (Logs [''starting'', ''done'']), demo_fs)"
proof -
  have w: "wf_fs demo_fs" by code_simp
  have a: "plain_list [''app'']" by code_simp
  have p1: "plain ''s1''" and p2: "plain ''s2''" by code_simp+
  have r1: "node_at demo_fs (server_root (abs_path [''app'']) ''s1'') = Some Directory"
    by code_simp
  have l1: "node_at demo_fs (path_join [server_root (abs_path [''app'']) ''s1'', ''logs'']) = None"
    by code_simp
  have n1: "\<not> existsSync demo_fs
         (path_join [server_root (abs_path [''app'']) ''s1'', ''logs'', ''server.log''])"
    by code_simp
  have r2: "node_at demo_fs (server_root (abs_path [''app'']) ''s2'') = Some Directory"
    by code_simp
  have l2: "node_at demo_fs (path_join [server_root (abs_path [''app'']) ''s2'', ''logs''])
        = Some Directory" by code_simp
  have f2: "node_at demo_fs
        (path_join [server_root (abs_path [''app'']) ''s2'', ''logs'', ''server.log''])
        = Some (File (''starting'' @ [CHR 0x0A] @ ''done'' @ [CHR 0x0A]))" by code_simp
  have sl: "drop (length (split_lines [] (''starting'' @ [CHR 0x0A] @ ''done'' @ [CHR 0x0A])) - 100)
              (split_lines [] (''starting'' @ [CHR 0x0A] @ ''done'' @ [CHR 0x0A]))
            = [''starting'', ''done'']" by code_simp
  have d1: "node_at demo_fs (path_join [server_root (abs_path [''app'']) ''s1'', ''logs'']) = None
         \<or> node_at demo_fs (path_join [server_root (abs_path [''app'']) ''s1'', ''logs''])
             = Some Directory" using l1 by simp
  have d2: "node_at demo_fs (path_join [server_root (abs_path [''app'']) ''s2'', ''logs'']) = None
         \<or> node_at demo_fs (path_join [server_root (abs_path [''app'']) ''s2'', ''logs''])
             = Some Directory" using l2 by simp
  have s1: "\<exists>fs'. get_api_servers_console demo_fs (abs_path [''app'']) ''s1'' =
                (Resp 200 (Logs []), fs')
            \<and> node_at fs'
                (path_join [server_root (abs_path [''app'']) ''s1'', ''logs'', ''server.log''])
                = Some (File [])"
    using console_returns_last_lines [OF w a p1 r1 d1] n1 by blast
  have s2: "get_api_servers_console demo_fs (abs_path [''app'']) ''s2'' =
        (Resp 200 (Logs [''starting'', ''done'']), demo_fs)"
    using console_returns_last_lines [OF w a p2 r2 d2] f2 sl by (metis (no_types, lifting))
  show ?thesis using w a p1 p2 r1 l1 n1 s1 r2 l2 f2 s2 by (intro conjI)
qed

section \<open>The registry: create, list, delete\<close>

lemma run_steps_Cons_ok:
  "run_steps fs (f # rest) = (None, fs') \<longleftrightarrow>
     (\<exists>fs1. f fs = Inr fs1 \<and> run_steps fs1 rest = (None, fs'))"
  by (cases "f fs") auto

lemma snoc_neq_self: "p @ [x] \<noteq> p"
  by simp

lemma mkdir_child:
  assumes "wf_fs fs" "plain_list p" "lookup fs p = Some Directory" "plain x"
    and "mkdir_recursive fs (abs_path (p @ [x])) = Inr fs'"
  shows "wf_fs fs' \<and> lookup fs' (p @ [x]) = Some Directory
         \<and> (\<forall>q. q \<noteq> p @ [x] \<longrightarrow> lookup fs' q = lookup fs q)"
proof -
  have pl: "plain_list (p @ [x])" using assms(2,4) by simp
  have par: "lookup fs (butlast (p @ [x])) = Some Directory" using assms(3) by simp
  have e: "mkdir_recursive fs (abs_path (p @ [x])) = ensure_dir fs (p @ [x]) True"
    by (rule mkdir_abs[OF assms(1) pl _ par]) simp
  show ?thesis
  proof (cases "lookup fs (p @ [x])")
    case None
    then have f: "fs' = put fs (p @ [x]) Directory" using e assms(5) by (simp add: ensure_dir_def)
    have "wf_fs (put fs (p @ [x]) Directory)" by (rule wf_put[OF assms(1) _ pl par]) simp_all
    then show ?thesis by (simp add: f lookup_put)
  next
    case (Some n)
    then show ?thesis using e assms(1,5) by (cases n) (auto simp: ensure_dir_def)
  qed
qed

lemma mkdir_child_ok:
  assumes "wf_fs fs" "plain_list p" "lookup fs p = Some Directory" "plain x"
    and "\<And>c. lookup fs (p @ [x]) \<noteq> Some (File c)"
  shows "\<exists>fs'. mkdir_recursive fs (abs_path (p @ [x])) = Inr fs'"
proof -
  have pl: "plain_list (p @ [x])" using assms(2,4) by simp
  have par: "lookup fs (butlast (p @ [x])) = Some Directory" using assms(3) by simp
  have e: "mkdir_recursive fs (abs_path (p @ [x])) = ensure_dir fs (p @ [x]) True"
    by (rule mkdir_abs[OF assms(1) pl _ par]) simp
  show ?thesis
  proof (cases "lookup fs (p @ [x])")
    case None
    then show ?thesis using e by (simp add: ensure_dir_def)
  next
    case (Some n)
    then show ?thesis using e assms(5) by (cases n) (auto simp: ensure_dir_def)
  qed
qed

lemma write_child:
  assumes "wf_fs fs" "plain_list p" "lookup fs p = Some Directory" "plain x"
    and "writeFile fs (abs_path (p @ [x])) c = Inr fs'"
  shows "wf_fs fs' \<and> lookup fs' (p @ [x]) = Some (File c)
         \<and> (\<forall>q. q \<noteq> p @ [x] \<longrightarrow> lookup fs' q = lookup fs q)"
proof -
  have pl: "plain_list (p @ [x])" using assms(2,4) by simp
  have par: "lookup fs (butlast (p @ [x])) = Some Directory" using assms(3) by simp
  have e: "writeFile fs (abs_path (p @ [x])) c =
             (if lookup fs (p @ [x]) = Some Directory then Inl EISDIR
              else Inr (put fs (p @ [x]) (File c)))"
    by (rule writeFile_abs[OF assms(1) pl _ par]) simp
  have nd: "lookup fs (p @ [x]) \<noteq> Some Directory" using e assms(5) by auto
  then have f: "fs' = put fs (p @ [x]) (File c)" using e assms(5) by simp
  have "wf_fs (put fs (p @ [x]) (File c))"
    by (rule wf_put[OF assms(1) _ pl par]) (simp_all add: nd)
  then show ?thesis by (simp add: f lookup_put)
qed

lemma write_child_ok:
  assumes "wf_fs fs" "plain_list p" "lookup fs p = Some Directory" "plain x"
    and "lookup fs (p @ [x]) \<noteq> Some Directory"
  shows "\<exists>fs'. writeFile fs (abs_path (p @ [x])) c = Inr fs'"
proof -
  have pl: "plain_list (p @ [x])" using assms(2,4) by simp
  have par: "lookup fs (butlast (p @ [x])) = Some Directory" using assms(3) by simp
  have e: "writeFile fs (abs_path (p @ [x])) c =
             (if lookup fs (p @ [x]) = Some Directory then Inl EISDIR
              else Inr (put fs (p @ [x]) (File c)))"
    by (rule writeFile_abs[OF assms(1) pl _ par]) simp
  show ?thesis using e assms(5) by simp
qed

lemma servers_loop_eval:
  assumes "wf_fs fs" "plain_list sd"
  shows "(\<forall>c \<in> set cs. lookup fs (sd @ [c]) \<noteq> None) \<Longrightarrow>
     servers_loop fs (abs_path sd) cs =
       Inr (map (\<lambda>c. (c, abs_path (sd @ [c])))
              (filter (\<lambda>c. lookup fs (sd @ [c]) = Some Directory) cs))"
proof (induction cs)
  case Nil then show ?case by simp
next
  case (Cons c cs)
  obtain n where n: "lookup fs (sd @ [c]) = Some n" using Cons.prems by auto
  have pl: "plain_list (sd @ [c])" using wf_plain[OF assms(1) n] .
  then have pc: "plain c" by simp
  have j: "path_join [abs_path sd, c] = abs_path (sd @ [c])"
    using path_join_abs1[OF assms(2) pc] .
  have st: "stat fs (abs_path (sd @ [c])) = Inr n" using stat_abs[OF assms(1) pl n] .
  have ih: "servers_loop fs (abs_path sd) cs =
       Inr (map (\<lambda>c. (c, abs_path (sd @ [c])))
              (filter (\<lambda>c. lookup fs (sd @ [c]) = Some Directory) cs))"
    using Cons.IH Cons.prems by simp
  show ?case using j st ih n by (simp add: isDirectory_def)
qed

lemma list_eval:
  assumes "wf_fs fs" "plain_list ds" "lookup fs (ds @ [''servers'']) = Some Directory"
  shows "get_api_servers fs (abs_path ds) =
     (Resp 200 (ServerList (map (\<lambda>c. (c, abs_path (ds @ [''servers''] @ [c])))
        (filter (\<lambda>c. lookup fs (ds @ [''servers''] @ [c]) = Some Directory)
           (children fs (ds @ [''servers'']))))), fs)"
proof -
  let ?sd = "ds @ [''servers'']"
  have psd: "plain_list ?sd" using assms(2) by simp
  have j: "path_join [abs_path ds, ''servers''] = abs_path ?sd"
    using path_join_abs1[OF assms(2), of "''servers''"] by simp
  have ex: "existsSync fs (abs_path ?sd)" using assms(3) by (simp add: existsSync_abs[OF assms(1) psd])
  have rd: "readdir fs (abs_path ?sd) = Inr (children fs ?sd)"
    using readdir_abs[OF assms(1) psd assms(3)] .
  have ch: "\<forall>c \<in> set (children fs ?sd). lookup fs (?sd @ [c]) \<noteq> None"
    by (simp add: children_iff)
  have lp: "servers_loop fs (abs_path ?sd) (children fs ?sd) =
       Inr (map (\<lambda>c. (c, abs_path (?sd @ [c])))
              (filter (\<lambda>c. lookup fs (?sd @ [c]) = Some Directory) (children fs ?sd)))"
    using servers_loop_eval[OF assms(1) psd ch] .
  show ?thesis unfolding get_api_servers_def Let_def j using ex rd lp by simp
qed

lemma list_names:
  assumes "wf_fs fs" "plain_list ds" "lookup fs (ds @ [''servers'']) = Some Directory"
    and "get_api_servers fs (abs_path ds) = (Resp 200 (ServerList l), fs1)"
  shows "fs1 = fs" and "s \<in> fst ` set l \<longleftrightarrow> lookup fs (ds @ [''servers'', s]) = Some Directory"
proof -
  have e: "l = map (\<lambda>c. (c, abs_path (ds @ [''servers''] @ [c])))
        (filter (\<lambda>c. lookup fs (ds @ [''servers''] @ [c]) = Some Directory)
           (children fs (ds @ [''servers''])))" and f: "fs1 = fs"
    using list_eval[OF assms(1,2,3)] assms(4) by simp_all
  show "fs1 = fs" by (rule f)
  have "s \<in> fst ` set l \<longleftrightarrow>
          s \<in> set (children fs (ds @ [''servers''])) \<and> lookup fs (ds @ [''servers''] @ [s]) = Some Directory"
    unfolding e by (auto simp: image_iff)
  also have "\<dots> \<longleftrightarrow> lookup fs (ds @ [''servers''] @ [s]) = Some Directory"
    using children_iff[of s fs "ds @ [''servers'']"] by auto
  finally show "s \<in> fst ` set l \<longleftrightarrow> lookup fs (ds @ [''servers'', s]) = Some Directory" by simp
qed

lemma list_sound:
  assumes "wf_fs fs" "plain_list ds"
    and "get_api_servers fs (abs_path ds) = (Resp 200 (ServerList l), fs1)"
  shows "wf_fs fs1 \<and> lookup fs1 (ds @ [''servers'']) = Some Directory
       \<and> (\<forall>s. s \<in> fst ` set l \<longleftrightarrow> lookup fs1 (ds @ [''servers'', s]) = Some Directory)
       \<and> (\<forall>q. \<not> prefix q (ds @ [''servers'']) \<longrightarrow> lookup fs1 q = lookup fs q)"
proof -
  let ?sd = "ds @ [''servers'']"
  have psd: "plain_list ?sd" using assms(2) by simp
  have j: "path_join [abs_path ds, ''servers''] = abs_path ?sd"
    using path_join_abs1[OF assms(2), of "''servers''"] by simp
  show ?thesis
  proof (cases "lookup fs ?sd")
    case None
    then have nex: "\<not> existsSync fs (abs_path ?sd)" by (simp add: existsSync_abs[OF assms(1) psd])
    obtain fs0 where mk: "mkdir_recursive fs (abs_path ?sd) = Inr fs0"
      using assms(3) nex unfolding get_api_servers_def Let_def j
      by (cases "mkdir_recursive fs (abs_path ?sd)") auto
    have inv: "wf_fs fs0 \<and> lookup fs0 ?sd = Some Directory
       \<and> (\<forall>q. lookup fs q \<noteq> None \<longrightarrow> lookup fs0 q = lookup fs q)
       \<and> (\<forall>q. \<not> prefix q ?sd \<longrightarrow> lookup fs0 q = lookup fs q) \<and> cwd fs0 = cwd fs"
      using mkdir_recursive_inv[OF assms(1) psd mk] .
    have w0: "wf_fs fs0" and d0: "lookup fs0 ?sd = Some Directory" using inv by simp_all
    have rd: "readdir fs0 (abs_path ?sd) = Inr (children fs0 ?sd)"
      using readdir_abs[OF w0 psd d0] .
    have ch: "\<forall>c \<in> set (children fs0 ?sd). lookup fs0 (?sd @ [c]) \<noteq> None"
      by (simp add: children_iff)
    have lp: "servers_loop fs0 (abs_path ?sd) (children fs0 ?sd) =
       Inr (map (\<lambda>c. (c, abs_path (?sd @ [c])))
              (filter (\<lambda>c. lookup fs0 (?sd @ [c]) = Some Directory) (children fs0 ?sd)))"
      using servers_loop_eval[OF w0 psd ch] .
    have ev: "get_api_servers fs (abs_path ds) =
       (Resp 200 (ServerList (map (\<lambda>c. (c, abs_path (?sd @ [c])))
              (filter (\<lambda>c. lookup fs0 (?sd @ [c]) = Some Directory) (children fs0 ?sd)))), fs0)"
      unfolding get_api_servers_def Let_def j using nex mk rd lp by simp
    have f: "fs1 = fs0" and e: "l = map (\<lambda>c. (c, abs_path (?sd @ [c])))
              (filter (\<lambda>c. lookup fs0 (?sd @ [c]) = Some Directory) (children fs0 ?sd))"
      using ev assms(3) by simp_all
    have "\<forall>s. s \<in> fst ` set l \<longleftrightarrow>
          s \<in> set (children fs0 ?sd) \<and> lookup fs0 (?sd @ [s]) = Some Directory"
      unfolding e by (auto simp: image_iff)
    then have "\<forall>s. s \<in> fst ` set l \<longleftrightarrow> lookup fs0 (?sd @ [s]) = Some Directory"
      using children_iff[of _ fs0 ?sd] by auto
    then show ?thesis using inv f by simp
  next
    case (Some n)
    show ?thesis
    proof (cases n)
      case Directory
      then have d: "lookup fs ?sd = Some Directory" using Some by simp
      show ?thesis
        using list_names[OF assms(1,2) d assms(3)] assms(1) d by simp
    next
      case (File c)
      then have ex: "existsSync fs (abs_path ?sd)" using Some by (simp add: existsSync_abs[OF assms(1) psd])
      have r: "resolve fs (abs_path ?sd) = Inr ?sd" using resolve_abs_existing[OF assms(1) psd Some] .
      have "readdir fs (abs_path ?sd) = Inl ENOTDIR"
        unfolding readdir_def r using Some File by simp
      then have "fst (get_api_servers fs (abs_path ds)) = Resp 500 (Error ''Failed to read servers directory'')"
        unfolding get_api_servers_def Let_def j using ex by simp
      then show ?thesis using assms(3) by simp
    qed
  qed
qed

lemma create_paths:
  assumes "plain_list ds" "plain name"
  shows "path_join [path_join [abs_path ds, ''servers''], name] = abs_path (ds @ [''servers'', name])"
    and "plain x \<Longrightarrow> path_join [abs_path (ds @ [''servers'', name]), x] =
           abs_path ((ds @ [''servers'', name]) @ [x])"
proof -
  show "path_join [path_join [abs_path ds, ''servers''], name] = abs_path (ds @ [''servers'', name])"
    using assms by (simp add: path_join_abs1)
  have "plain_list (ds @ [''servers'', name])" using assms by simp
  then show "plain x \<Longrightarrow> path_join [abs_path (ds @ [''servers'', name]), x] =
           abs_path ((ds @ [''servers'', name]) @ [x])"
    by (rule path_join_abs1)
qed

lemma create_steps:
  assumes "plain_list ds" "plain name"
  shows "post_api_servers fs (abs_path ds) (Some name) date =
     (case run_steps fs
        [\<lambda>fs. mkdir_recursive fs (abs_path (ds @ [''servers'', name])),
         \<lambda>fs. mkdir_recursive fs (abs_path ((ds @ [''servers'', name]) @ [''plugins''])),
         \<lambda>fs. mkdir_recursive fs (abs_path ((ds @ [''servers'', name]) @ [''logs''])),
         \<lambda>fs. mkdir_recursive fs (abs_path ((ds @ [''servers'', name]) @ [''world''])),
         \<lambda>fs. writeFile fs (abs_path ((ds @ [''servers'', name]) @ [''server.properties'']))
                (serverProperties date),
         \<lambda>fs. writeFile fs (abs_path ((ds @ [''servers'', name]) @ [''config.yml'']))
                (configYml name),
         \<lambda>fs. writeFile fs (abs_path ((ds @ [''servers'', name]) @ [''bukkit.yml''])) bukkitYml] of
        (None, fs') \<Rightarrow> (Resp 200 (Message ''Server created successfully''), fs')
      | (Some e, fs') \<Rightarrow> (Resp 500 (Error ''Failed to create server''), fs'))"
  unfolding post_api_servers_def Let_def option.case create_paths(1)[OF assms]
  by (simp only: create_paths(2)[OF assms] plain_literals)

lemma create_success_inv:
  assumes w: "wf_fs fs" and ds: "plain_list ds" and n: "plain name"
    and ok: "post_api_servers fs (abs_path ds) (Some name) date = (Resp 200 msg, fs')"
  shows "wf_fs fs' \<and> lookup fs' (ds @ [''servers'', name]) = Some Directory"
proof -
  let ?sp = "ds @ [''servers'', name]"
  have psp: "plain_list ?sp" using ds n by simp
  obtain eo where rs: "run_steps fs
        [\<lambda>fs. mkdir_recursive fs (abs_path ?sp),
         \<lambda>fs. mkdir_recursive fs (abs_path (?sp @ [''plugins''])),
         \<lambda>fs. mkdir_recursive fs (abs_path (?sp @ [''logs''])),
         \<lambda>fs. mkdir_recursive fs (abs_path (?sp @ [''world''])),
         \<lambda>fs. writeFile fs (abs_path (?sp @ [''server.properties''])) (serverProperties date),
         \<lambda>fs. writeFile fs (abs_path (?sp @ [''config.yml''])) (configYml name),
         \<lambda>fs. writeFile fs (abs_path (?sp @ [''bukkit.yml''])) bukkitYml] = (eo, fs')"
    using ok unfolding create_steps[OF ds n] by (auto split: prod.splits option.splits)
  have "eo = None" using ok rs unfolding create_steps[OF ds n] by (cases eo) auto
  then have rs': "run_steps fs
        [\<lambda>fs. mkdir_recursive fs (abs_path ?sp),
         \<lambda>fs. mkdir_recursive fs (abs_path (?sp @ [''plugins''])),
         \<lambda>fs. mkdir_recursive fs (abs_path (?sp @ [''logs''])),
         \<lambda>fs. mkdir_recursive fs (abs_path (?sp @ [''world''])),
         \<lambda>fs. writeFile fs (abs_path (?sp @ [''server.properties''])) (serverProperties date),
         \<lambda>fs. writeFile fs (abs_path (?sp @ [''config.yml''])) (configYml name),
         \<lambda>fs. writeFile fs (abs_path (?sp @ [''bukkit.yml''])) bukkitYml] = (None, fs')"
    using rs by (simp only:)
  obtain f1 f2 f3 f4 f5 f6 where
    s1: "mkdir_recursive fs (abs_path ?sp) = Inr f1" and
    s2: "mkdir_recursive f1 (abs_path (?sp @ [''plugins''])) = Inr f2" and
    s3: "mkdir_recursive f2 (abs_path (?sp @ [''logs''])) = Inr f3" and
    s4: "mkdir_recursive f3 (abs_path (?sp @ [''world''])) = Inr f4" and
    s5: "writeFile f4 (abs_path (?sp @ [''server.properties''])) (serverProperties date) = Inr f5" and
    s6: "writeFile f5 (abs_path (?sp @ [''config.yml''])) (configYml name) = Inr f6" and
    s7: "writeFile f6 (abs_path (?sp @ [''bukkit.yml''])) bukkitYml = Inr fs'"
    using rs' by (auto simp: run_steps_Cons_ok simp del: run_steps.simps(2))
  have i1: "wf_fs f1 \<and> lookup f1 ?sp = Some Directory"
    using mkdir_recursive_inv[OF w psp s1] by simp
  have i2: "wf_fs f2 \<and> lookup f2 ?sp = Some Directory"
    using mkdir_child[OF _ psp _ _ s2] i1 by simp
  have i3: "wf_fs f3 \<and> lookup f3 ?sp = Some Directory"
    using mkdir_child[OF _ psp _ _ s3] i2 by simp
  have i4: "wf_fs f4 \<and> lookup f4 ?sp = Some Directory"
    using mkdir_child[OF _ psp _ _ s4] i3 by simp
  have i5: "wf_fs f5 \<and> lookup f5 ?sp = Some Directory"
    using write_child[OF _ psp _ _ s5] i4 by simp
  have i6: "wf_fs f6 \<and> lookup f6 ?sp = Some Directory"
    using write_child[OF _ psp _ _ s6] i5 by simp
  show ?thesis
    using write_child[OF _ psp _ _ s7] i6 by simp
qed

lemma delete_eval:
  assumes w: "wf_fs fs" and ds: "plain_list ds" and n: "plain name"
  shows "delete_api_servers fs (abs_path ds) name =
     (if lookup fs (ds @ [''servers'', name]) = None
        then (Resp 404 (Error ''Server not found''), fs)
      else (Resp 200 (Message ''Server deleted successfully''),
            remove_tree fs (ds @ [''servers'', name])))"
proof -
  let ?sd = "ds @ [''servers'']"
  let ?sp = "ds @ [''servers'', name]"
  have psp: "plain_list ?sp" using ds n by simp
  have j1: "path_join [abs_path ds, ''servers''] = abs_path ?sd"
    using path_join_abs1[OF ds, of "''servers''"] by simp
  have j2: "path_join [abs_path ?sd, name] = abs_path ?sp"
    using path_join_abs1[of ?sd name] ds n by simp
  have pre: "prefix (abs_path ?sd) (abs_path ?sp)"
    using prefix_abs_path[of ?sd "[name]"] by simp
  show ?thesis
  proof (cases "lookup fs ?sp")
    case None
    then show ?thesis
      unfolding delete_api_servers_def Let_def j1 j2
      using pre by (simp add: existsSync_abs[OF w psp])
  next
    case (Some x)
    have r: "resolve fs (abs_path ?sp) = Inr ?sp" using resolve_abs_existing[OF w psp Some] .
    have rm: "rm_recursive_force fs (abs_path ?sp) = (None, remove_tree fs ?sp)"
      unfolding rm_recursive_force_def r by simp
    show ?thesis
      unfolding delete_api_servers_def Let_def j1 j2
      using pre Some rm by (simp add: existsSync_abs[OF w psp])
  qed
qed

text \<open>
  Claim C6. The file system being a tree, the application directory absolute and
  normalised, and the name one path segment: after a create that answers success,
  the list answers success and has an entry of that name; after a delete, whatever it
  answered (200 or 404), no list has an entry of that name, and after a delete that
  answered 200 the list answers success. The list itself is a function of the file
  system alone: its names are exactly the directories in the servers directory at the
  time of the query.
\<close>

theorem registry_follows_the_directory:
  assumes "wf_fs fs" and "plain_list ds" and "plain name"
  shows "(\<forall>msg fs'. post_api_servers fs (abs_path ds) (Some name) date = (Resp 200 msg, fs') \<longrightarrow>
            (\<exists>l. get_api_servers fs' (abs_path ds) = (Resp 200 (ServerList l), fs')
                 \<and> name \<in> fst ` set l))
       \<and> (\<forall>r fs' l fs''.
            delete_api_servers fs (abs_path ds) name = (r, fs')
            \<and> get_api_servers fs' (abs_path ds) = (Resp 200 (ServerList l), fs'') \<longrightarrow>
            name \<notin> fst ` set l)
       \<and> (\<forall>fs'. delete_api_servers fs (abs_path ds) name =
                   (Resp 200 (Message ''Server deleted successfully''), fs') \<longrightarrow>
            (\<exists>l. get_api_servers fs' (abs_path ds) = (Resp 200 (ServerList l), fs')
                 \<and> name \<notin> fst ` set l))
       \<and> (fst (delete_api_servers fs (abs_path ds) name) =
             Resp 200 (Message ''Server deleted successfully'')
           \<or> fst (delete_api_servers fs (abs_path ds) name) =
             Resp 404 (Error ''Server not found''))
       \<and> (\<forall>l fs1. get_api_servers fs (abs_path ds) = (Resp 200 (ServerList l), fs1) \<longrightarrow>
            (\<forall>s. s \<in> fst ` set l \<longleftrightarrow> lookup fs1 (ds @ [''servers'', s]) = Some Directory))"
proof -
  let ?sd = "ds @ [''servers'']"
  let ?sp = "ds @ [''servers'', name]"
  note w = assms(1) and ds = assms(2) and n = assms(3)
  have c1: "\<forall>msg fs'. post_api_servers fs (abs_path ds) (Some name) date = (Resp 200 msg, fs') \<longrightarrow>
            (\<exists>l. get_api_servers fs' (abs_path ds) = (Resp 200 (ServerList l), fs')
                 \<and> name \<in> fst ` set l)"
  proof (intro allI impI)
    fix msg fs'
    assume ok: "post_api_servers fs (abs_path ds) (Some name) date = (Resp 200 msg, fs')"
    have g: "wf_fs fs'" "lookup fs' ?sp = Some Directory"
      using create_success_inv[OF w ds n ok] by simp_all
    have sd: "lookup fs' ?sd = Some Directory" using wf_parent[OF g(1) g(2)] by (simp add: butlast_append)
    obtain l where l: "get_api_servers fs' (abs_path ds) = (Resp 200 (ServerList l), fs')"
      using list_eval[OF g(1) ds sd] by blast
    have "name \<in> fst ` set l" using list_names(2)[OF g(1) ds sd l, of name] g(2) by simp
    then show "\<exists>l. get_api_servers fs' (abs_path ds) = (Resp 200 (ServerList l), fs')
                 \<and> name \<in> fst ` set l" using l by blast
  qed
  have del: "delete_api_servers fs (abs_path ds) name =
     (if lookup fs ?sp = None then (Resp 404 (Error ''Server not found''), fs)
      else (Resp 200 (Message ''Server deleted successfully''), remove_tree fs ?sp))"
    using delete_eval[OF w ds n] .
  have after: "wf_fs (snd (delete_api_servers fs (abs_path ds) name))
             \<and> lookup (snd (delete_api_servers fs (abs_path ds) name)) ?sp = None"
    using w wf_remove_tree[OF w, of ?sp] by (auto simp: del lookup_remove_tree)
  have c2: "\<forall>r fs' l fs''.
            delete_api_servers fs (abs_path ds) name = (r, fs')
            \<and> get_api_servers fs' (abs_path ds) = (Resp 200 (ServerList l), fs'') \<longrightarrow>
            name \<notin> fst ` set l"
  proof (intro allI impI)
    fix r fs' l fs''
    assume a: "delete_api_servers fs (abs_path ds) name = (r, fs')
            \<and> get_api_servers fs' (abs_path ds) = (Resp 200 (ServerList l), fs'')"
    then have g: "wf_fs fs'" "lookup fs' ?sp = None" using after by simp_all
    have ls: "get_api_servers fs' (abs_path ds) = (Resp 200 (ServerList l), fs'')" using a by simp
    have snd: "(\<forall>s. s \<in> fst ` set l \<longleftrightarrow> lookup fs'' (ds @ [''servers'', s]) = Some Directory)
       \<and> (\<forall>q. \<not> prefix q ?sd \<longrightarrow> lookup fs'' q = lookup fs' q)"
      using list_sound[OF g(1) ds ls] by simp
    have "\<not> prefix ?sp ?sd" by (simp add: prefix_def)
    then have "lookup fs'' ?sp = None" using snd g(2) by simp
    then show "name \<notin> fst ` set l" using snd by simp
  qed
  have c3: "\<forall>fs'. delete_api_servers fs (abs_path ds) name =
                   (Resp 200 (Message ''Server deleted successfully''), fs') \<longrightarrow>
            (\<exists>l. get_api_servers fs' (abs_path ds) = (Resp 200 (ServerList l), fs')
                 \<and> name \<notin> fst ` set l)"
  proof (intro allI impI)
    fix fs'
    assume a: "delete_api_servers fs (abs_path ds) name =
                   (Resp 200 (Message ''Server deleted successfully''), fs')"
    then have ex: "lookup fs ?sp \<noteq> None" and f: "fs' = remove_tree fs ?sp"
      using del by (auto split: if_splits)
    obtain x where "lookup fs ?sp = Some x" using ex by auto
    then have sd: "lookup fs ?sd = Some Directory" using wf_parent[OF w, of ?sp x] by (simp add: butlast_append)
    have np: "\<not> prefix ?sp ?sd" by (simp add: prefix_def)
    have sd': "lookup fs' ?sd = Some Directory" using sd np by (simp add: f lookup_remove_tree)
    have w': "wf_fs fs'" using wf_remove_tree[OF w] f by simp
    obtain l where l: "get_api_servers fs' (abs_path ds) = (Resp 200 (ServerList l), fs')"
      using list_eval[OF w' ds sd'] by blast
    have "name \<notin> fst ` set l" using c2 a l by blast
    then show "\<exists>l. get_api_servers fs' (abs_path ds) = (Resp 200 (ServerList l), fs')
                 \<and> name \<notin> fst ` set l" using l by blast
  qed
  have c4: "fst (delete_api_servers fs (abs_path ds) name) =
             Resp 200 (Message ''Server deleted successfully'')
           \<or> fst (delete_api_servers fs (abs_path ds) name) =
             Resp 404 (Error ''Server not found'')"
    by (simp add: del)
  have c5: "\<forall>l fs1. get_api_servers fs (abs_path ds) = (Resp 200 (ServerList l), fs1) \<longrightarrow>
            (\<forall>s. s \<in> fst ` set l \<longleftrightarrow> lookup fs1 (ds @ [''servers'', s]) = Some Directory)"
    using list_sound[OF w ds] by blast
  show ?thesis by (intro conjI c1 c2 c3 c4 c5)
qed

theorem registry_follows_the_directory_witness:
  "wf_fs demo_fs \<and> plain_list [''app''] \<and> plain ''s3'' \<and> plain ''s1''
   \<and> fst (post_api_servers demo_fs (abs_path [''app'']) (Some ''s3'') ''Mon'') =
        Resp 200 (Message ''Server created successfully'')
   \<and> (\<exists>l. get_api_servers (snd (post_api_servers demo_fs (abs_path [''app'']) (Some ''s3'') ''Mon''))
              (abs_path [''app'']) =
             (Resp 200 (ServerList l),
              snd (post_api_servers demo_fs (abs_path [''app'']) (Some ''s3'') ''Mon''))
          \<and> ''s3'' \<in> fst ` set l)
   \<and> fst (delete_api_servers demo_fs (abs_path [''app'']) ''s1'') =
        Resp 200 (Message ''Server deleted successfully'')
   \<and> (\<exists>l. get_api_servers (snd (delete_api_servers demo_fs (abs_path [''app'']) ''s1''))
              (abs_path [''app'']) =
             (Resp 200 (ServerList l), snd (delete_api_servers demo_fs (abs_path [''app'']) ''s1''))
          \<and> ''s1'' \<notin> fst ` set l)"
proof -
  have w: "wf_fs demo_fs" by code_simp
  have a: "plain_list [''app'']" by code_simp
  have p3: "plain ''s3''" and p1: "plain ''s1''" by code_simp+
  have c: "fst (post_api_servers demo_fs (abs_path [''app'']) (Some ''s3'') ''Mon'') =
        Resp 200 (Message ''Server created successfully'')" by code_simp
  then have c': "post_api_servers demo_fs (abs_path [''app'']) (Some ''s3'') ''Mon'' =
        (Resp 200 (Message ''Server created successfully''),
         snd (post_api_servers demo_fs (abs_path [''app'']) (Some ''s3'') ''Mon''))"
    by (simp add: prod_eq_iff)
  have d: "fst (delete_api_servers demo_fs (abs_path [''app'']) ''s1'') =
        Resp 200 (Message ''Server deleted successfully'')" by code_simp
  then have d': "delete_api_servers demo_fs (abs_path [''app'']) ''s1'' =
        (Resp 200 (Message ''Server deleted successfully''),
         snd (delete_api_servers demo_fs (abs_path [''app'']) ''s1''))"
    by (simp add: prod_eq_iff)
  have l3: "\<exists>l. get_api_servers (snd (post_api_servers demo_fs (abs_path [''app'']) (Some ''s3'') ''Mon''))
              (abs_path [''app'']) =
             (Resp 200 (ServerList l),
              snd (post_api_servers demo_fs (abs_path [''app'']) (Some ''s3'') ''Mon''))
          \<and> ''s3'' \<in> fst ` set l"
    by (rule registry_follows_the_directory [OF w a p3, of "''Mon''", THEN conjunct1,
          rule_format, OF c'])
  have l1: "\<exists>l. get_api_servers (snd (delete_api_servers demo_fs (abs_path [''app'']) ''s1''))
              (abs_path [''app'']) =
             (Resp 200 (ServerList l), snd (delete_api_servers demo_fs (abs_path [''app'']) ''s1''))
          \<and> ''s1'' \<notin> fst ` set l"
    by (rule registry_follows_the_directory [OF w a p1, of "''Mon''", THEN conjunct2,
          THEN conjunct2, THEN conjunct1, rule_format, OF d'])
  show ?thesis using w a p3 p1 c l3 d l1 by (intro conjI)
qed

section \<open>Creating a server that exists\<close>

text \<open>
  Claim C3, as stated, fails on the code: server \<open>s1\<close> exists, with an edited
  \<open>server.properties\<close>. Creating \<open>s1\<close> again answers success, and the edited file
  has been replaced by the default one.
\<close>

theorem create_on_existing_server_succeeds:
  "existsSync demo_fs (server_root ''/app'' ''s1'')
   \<and> node_at demo_fs ''/app/servers/s1/server.properties'' = Some (File ''gamemode=creative'')
   \<and> fst (post_api_servers demo_fs ''/app'' (Some ''s1'') ''Mon Nov 02 2026'') =
        Resp 200 (Message ''Server created successfully'')
   \<and> node_at (snd (post_api_servers demo_fs ''/app'' (Some ''s1'') ''Mon Nov 02 2026''))
        ''/app/servers/s1/server.properties'' = Some (File (serverProperties ''Mon Nov 02 2026''))
   \<and> serverProperties ''Mon Nov 02 2026'' \<noteq> ''gamemode=creative''"
  by code_simp

lemma create_answers: 
  "fst (post_api_servers fs dirname name_field date) = Resp 200 (Message ''Server created successfully'')
   \<or> fst (post_api_servers fs dirname name_field date) = Resp 500 (Error ''Failed to create server'')"
  by (auto simp: post_api_servers_def Let_def split: option.splits prod.splits)

text \<open>
  Claim C3, amended. For a server name that is one path segment and names an existing
  instance (on a tree-shaped file system, the application directory absolute and
  normalised), create does not fail with a conflict: it answers 200 "Server created
  successfully", provided none of \<open>plugins\<close>, \<open>logs\<close>, \<open>world\<close> is a regular file
  and none of the three seed names is a directory. Afterwards the three directories
  exist, the three seed files hold the default content, and every other entry of the
  file system is what it was.
\<close>

theorem create_on_existing_server_rewrites_seeds:
  assumes "wf_fs fs" and "plain_list ds" and "plain name"
    and "lookup fs (ds @ [''servers'', name]) = Some Directory"
    and "\<forall>x \<in> {''plugins'', ''logs'', ''world''}. \<forall>c.
           lookup fs (ds @ [''servers'', name, x]) \<noteq> Some (File c)"
    and "\<forall>y \<in> {''server.properties'', ''config.yml'', ''bukkit.yml''}.
           lookup fs (ds @ [''servers'', name, y]) \<noteq> Some Directory"
  shows "\<exists>fs'. post_api_servers fs (abs_path ds) (Some name) date =
                 (Resp 200 (Message ''Server created successfully''), fs')
            \<and> lookup fs' (ds @ [''servers'', name, ''plugins'']) = Some Directory
            \<and> lookup fs' (ds @ [''servers'', name, ''logs'']) = Some Directory
            \<and> lookup fs' (ds @ [''servers'', name, ''world'']) = Some Directory
            \<and> lookup fs' (ds @ [''servers'', name, ''server.properties'']) =
                Some (File (serverProperties date))
            \<and> lookup fs' (ds @ [''servers'', name, ''config.yml'']) = Some (File (configYml name))
            \<and> lookup fs' (ds @ [''servers'', name, ''bukkit.yml'']) = Some (File bukkitYml)
            \<and> (\<forall>q. q \<notin> {ds @ [''servers'', name, ''plugins''], ds @ [''servers'', name, ''logs''],
                        ds @ [''servers'', name, ''world''],
                        ds @ [''servers'', name, ''server.properties''],
                        ds @ [''servers'', name, ''config.yml''],
                        ds @ [''servers'', name, ''bukkit.yml'']} \<longrightarrow>
                   lookup fs' q = lookup fs q)"
proof -
  let ?sp = "ds @ [''servers'', name]"
  note w = assms(1) and ds = assms(2) and n = assms(3) and sp = assms(4)
  have psp: "plain_list ?sp" using ds n by simp
  have par: "lookup fs (butlast ?sp) = Some Directory" using wf_parent[OF w sp] .
  have "mkdir_recursive fs (abs_path ?sp) = ensure_dir fs ?sp True"
    by (rule mkdir_abs[OF w psp _ par]) simp
  then have s1: "mkdir_recursive fs (abs_path ?sp) = Inr fs" using sp by (simp add: ensure_dir_def)
  have d2: "\<And>c. lookup fs (?sp @ [''plugins'']) \<noteq> Some (File c)" using assms(5) by simp
  obtain f2 where s2: "mkdir_recursive fs (abs_path (?sp @ [''plugins''])) = Inr f2"
    using mkdir_child_ok[OF w psp sp _ d2] by auto
  have i2: "wf_fs f2 \<and> lookup f2 (?sp @ [''plugins'']) = Some Directory
            \<and> (\<forall>q. q \<noteq> ?sp @ [''plugins''] \<longrightarrow> lookup f2 q = lookup fs q)"
    by (rule mkdir_child[OF w psp sp _ s2]) simp
  have sp2: "lookup f2 ?sp = Some Directory" using i2 sp by simp
  have d3: "\<And>c. lookup f2 (?sp @ [''logs'']) \<noteq> Some (File c)" using assms(5) i2 by simp
  obtain f3 where s3: "mkdir_recursive f2 (abs_path (?sp @ [''logs''])) = Inr f3"
    using mkdir_child_ok[OF _ psp sp2 _ d3] i2 by auto
  have i3: "wf_fs f3 \<and> lookup f3 (?sp @ [''logs'']) = Some Directory
            \<and> (\<forall>q. q \<noteq> ?sp @ [''logs''] \<longrightarrow> lookup f3 q = lookup f2 q)"
    by (rule mkdir_child[OF _ psp sp2 _ s3]) (simp_all add: i2)
  have sp3: "lookup f3 ?sp = Some Directory" using i3 sp2 by simp
  have d4: "\<And>c. lookup f3 (?sp @ [''world'']) \<noteq> Some (File c)" using assms(5) i2 i3 by simp
  obtain f4 where s4: "mkdir_recursive f3 (abs_path (?sp @ [''world''])) = Inr f4"
    using mkdir_child_ok[OF _ psp sp3 _ d4] i3 by auto
  have i4: "wf_fs f4 \<and> lookup f4 (?sp @ [''world'']) = Some Directory
            \<and> (\<forall>q. q \<noteq> ?sp @ [''world''] \<longrightarrow> lookup f4 q = lookup f3 q)"
    by (rule mkdir_child[OF _ psp sp3 _ s4]) (simp_all add: i3)
  have sp4: "lookup f4 ?sp = Some Directory" using i4 sp3 by simp
  have d5: "lookup f4 (?sp @ [''server.properties'']) \<noteq> Some Directory"
    using assms(6) i2 i3 i4 by simp
  obtain f5 where s5: "writeFile f4 (abs_path (?sp @ [''server.properties'']))
                         (serverProperties date) = Inr f5"
    using write_child_ok[OF _ psp sp4 _ d5] i4 by auto
  have i5: "wf_fs f5 \<and> lookup f5 (?sp @ [''server.properties'']) = Some (File (serverProperties date))
            \<and> (\<forall>q. q \<noteq> ?sp @ [''server.properties''] \<longrightarrow> lookup f5 q = lookup f4 q)"
    by (rule write_child[OF _ psp sp4 _ s5]) (simp_all add: i4)
  have sp5: "lookup f5 ?sp = Some Directory" using i5 sp4 by simp
  have d6: "lookup f5 (?sp @ [''config.yml'']) \<noteq> Some Directory"
    using assms(6) i2 i3 i4 i5 by simp
  obtain f6 where s6: "writeFile f5 (abs_path (?sp @ [''config.yml''])) (configYml name) = Inr f6"
    using write_child_ok[OF _ psp sp5 _ d6] i5 by auto
  have i6: "wf_fs f6 \<and> lookup f6 (?sp @ [''config.yml'']) = Some (File (configYml name))
            \<and> (\<forall>q. q \<noteq> ?sp @ [''config.yml''] \<longrightarrow> lookup f6 q = lookup f5 q)"
    by (rule write_child[OF _ psp sp5 _ s6]) (simp_all add: i5)
  have sp6: "lookup f6 ?sp = Some Directory" using i6 sp5 by simp
  have d7: "lookup f6 (?sp @ [''bukkit.yml'']) \<noteq> Some Directory"
    using assms(6) i2 i3 i4 i5 i6 by simp
  obtain f7 where s7: "writeFile f6 (abs_path (?sp @ [''bukkit.yml''])) bukkitYml = Inr f7"
    using write_child_ok[OF _ psp sp6 _ d7] i6 by auto
  have i7: "wf_fs f7 \<and> lookup f7 (?sp @ [''bukkit.yml'']) = Some (File bukkitYml)
            \<and> (\<forall>q. q \<noteq> ?sp @ [''bukkit.yml''] \<longrightarrow> lookup f7 q = lookup f6 q)"
    by (rule write_child[OF _ psp sp6 _ s7]) (simp_all add: i6)
  have ev: "post_api_servers fs (abs_path ds) (Some name) date =
                 (Resp 200 (Message ''Server created successfully''), f7)"
    unfolding create_steps[OF ds n] using s1 s2 s3 s4 s5 s6 s7 by simp
  have r1: "lookup f7 (ds @ [''servers'', name, ''plugins'']) = Some Directory"
    using i2 i3 i4 i5 i6 i7 by simp
  have r2: "lookup f7 (ds @ [''servers'', name, ''logs'']) = Some Directory"
    using i3 i4 i5 i6 i7 by simp
  have r3: "lookup f7 (ds @ [''servers'', name, ''world'']) = Some Directory"
    using i4 i5 i6 i7 by simp
  have r4: "lookup f7 (ds @ [''servers'', name, ''server.properties'']) =
                Some (File (serverProperties date))"
    using i5 i6 i7 by simp
  have r5: "lookup f7 (ds @ [''servers'', name, ''config.yml'']) = Some (File (configYml name))"
    using i6 i7 by simp
  have r6: "lookup f7 (ds @ [''servers'', name, ''bukkit.yml'']) = Some (File bukkitYml)"
    using i7 by simp
  have r7: "\<forall>q. q \<notin> {ds @ [''servers'', name, ''plugins''], ds @ [''servers'', name, ''logs''],
                        ds @ [''servers'', name, ''world''],
                        ds @ [''servers'', name, ''server.properties''],
                        ds @ [''servers'', name, ''config.yml''],
                        ds @ [''servers'', name, ''bukkit.yml'']} \<longrightarrow>
                   lookup f7 q = lookup fs q"
    using i2 i3 i4 i5 i6 i7 by simp
  show ?thesis by (rule exI[of _ f7]) (intro conjI ev r1 r2 r3 r4 r5 r6 r7)
qed

theorem create_on_existing_server_rewrites_seeds_witness:
  "wf_fs demo_fs \<and> plain_list [''app''] \<and> plain ''s1''
   \<and> lookup demo_fs ([''app''] @ [''servers'', ''s1'']) = Some Directory
   \<and> lookup demo_fs ([''app''] @ [''servers'', ''s1'', ''plugins'']) = None
   \<and> lookup demo_fs ([''app''] @ [''servers'', ''s1'', ''logs'']) = None
   \<and> lookup demo_fs ([''app''] @ [''servers'', ''s1'', ''world'']) = None
   \<and> lookup demo_fs ([''app''] @ [''servers'', ''s1'', ''server.properties'']) =
        Some (File ''gamemode=creative'')
   \<and> lookup demo_fs ([''app''] @ [''servers'', ''s1'', ''config.yml'']) = None
   \<and> lookup demo_fs ([''app''] @ [''servers'', ''s1'', ''bukkit.yml'']) = None
   \<and> (\<exists>fs'. post_api_servers demo_fs (abs_path [''app'']) (Some ''s1'') ''Mon Nov 02 2026'' =
                (Resp 200 (Message ''Server created successfully''), fs')
           \<and> lookup fs' ([''app''] @ [''servers'', ''s1'', ''server.properties'']) =
                Some (File (serverProperties ''Mon Nov 02 2026''))
           \<and> lookup fs' [''app'', ''servers'', ''s1'', ''a.txt''] =
                lookup demo_fs [''app'', ''servers'', ''s1'', ''a.txt''])"
proof -
  have w: "wf_fs demo_fs" by code_simp
  have a: "plain_list [''app'']" by code_simp
  have p: "plain ''s1''" by code_simp
  have r: "lookup demo_fs ([''app''] @ [''servers'', ''s1'']) = Some Directory" by code_simp
  have h1: "lookup demo_fs ([''app''] @ [''servers'', ''s1'', ''plugins'']) = None" by code_simp
  have h2: "lookup demo_fs ([''app''] @ [''servers'', ''s1'', ''logs'']) = None" by code_simp
  have h3: "lookup demo_fs ([''app''] @ [''servers'', ''s1'', ''world'']) = None" by code_simp
  have h4: "lookup demo_fs ([''app''] @ [''servers'', ''s1'', ''server.properties'']) =
        Some (File ''gamemode=creative'')" by code_simp
  have h5: "lookup demo_fs ([''app''] @ [''servers'', ''s1'', ''config.yml'']) = None" by code_simp
  have h6: "lookup demo_fs ([''app''] @ [''servers'', ''s1'', ''bukkit.yml'']) = None" by code_simp
  have dirs: "\<forall>x \<in> {''plugins'', ''logs'', ''world''}. \<forall>c.
           lookup demo_fs ([''app''] @ [''servers'', ''s1'', x]) \<noteq> Some (File c)"
    using h1 h2 h3 by simp
  have seeds: "\<forall>y \<in> {''server.properties'', ''config.yml'', ''bukkit.yml''}.
           lookup demo_fs ([''app''] @ [''servers'', ''s1'', y]) \<noteq> Some Directory"
    using h4 h5 h6 by simp
  obtain fs' where f:
    "post_api_servers demo_fs (abs_path [''app'']) (Some ''s1'') ''Mon Nov 02 2026'' =
       (Resp 200 (Message ''Server created successfully''), fs')"
    "lookup fs' ([''app''] @ [''servers'', ''s1'', ''server.properties'']) =
       Some (File (serverProperties ''Mon Nov 02 2026''))"
    "\<forall>q. q \<notin> {[''app''] @ [''servers'', ''s1'', ''plugins''],
              [''app''] @ [''servers'', ''s1'', ''logs''],
              [''app''] @ [''servers'', ''s1'', ''world''],
              [''app''] @ [''servers'', ''s1'', ''server.properties''],
              [''app''] @ [''servers'', ''s1'', ''config.yml''],
              [''app''] @ [''servers'', ''s1'', ''bukkit.yml'']} \<longrightarrow>
         lookup fs' q = lookup demo_fs q"
    using create_on_existing_server_rewrites_seeds [OF w a p r dirs seeds, of "''Mon Nov 02 2026''"]
    by auto
  have "lookup fs' [''app'', ''servers'', ''s1'', ''a.txt''] =
                lookup demo_fs [''app'', ''servers'', ''s1'', ''a.txt'']"
    using f(3) by simp
  then have ex: "\<exists>fs'. post_api_servers demo_fs (abs_path [''app'']) (Some ''s1'') ''Mon Nov 02 2026'' =
                (Resp 200 (Message ''Server created successfully''), fs')
           \<and> lookup fs' ([''app''] @ [''servers'', ''s1'', ''server.properties'']) =
                Some (File (serverProperties ''Mon Nov 02 2026''))
           \<and> lookup fs' [''app'', ''servers'', ''s1'', ''a.txt''] =
                lookup demo_fs [''app'', ''servers'', ''s1'', ''a.txt'']"
    using f(1,2) by blast
  show ?thesis using w a p r h1 h2 h3 h4 h5 h6 ex by (intro conjI)
qed

section \<open>The global file routes: read, write, delete, upload\<close>








subsection \<open>Moving a regular file\<close>




lemma cwd_move_tree [simp]: "cwd (move_tree fs p q) = cwd fs"
  by (simp add: move_tree_def)





subsection \<open>Uploading\<close>







subsection \<open>The four routes\<close>





end
